theory Spec2Isabelle
  imports Complex_Main "HOL-Library.Product_Lexorder" "HOL-Library.Multiset" "HOL-Library.AList"
begin

section \<open>Python values and containers\<close>

text \<open>
  The document model of SIFT (\<^verbatim>\<open>sift/model/document.py\<close>) is embedded function by
  function. Exceptions are values: every operation that can raise returns a sum whose left
  injection is the exception class, together with the state as the exception leaves it, since
  a Python exception does not roll back the mutations made before it.
\<close>

datatype error =
    IndexError | KeyError | ValueError | TypeError | AttributeError | AssertionError | OverflowError

text \<open>
  \<^verbatim>\<open>xs[i]\<close> on a list: a negative index counts from the end, an index outside
  \<^verbatim>\<open>-len .. len-1\<close> raises \<^verbatim>\<open>IndexError\<close>.
\<close>

definition py_index :: "'a list \<Rightarrow> int \<Rightarrow> error + 'a" where
  "py_index xs i =
     (if 0 \<le> i \<and> i < int (length xs) then Inr (xs ! nat i)
      else if i < 0 \<and> - int (length xs) \<le> i then Inr (xs ! nat (int (length xs) + i))
      else Inl IndexError)"

text \<open>
  The position at which \<^verbatim>\<open>list.insert(i, x)\<close> and the bounds of a slice place an
  index: negative indices count from the end, and the result is clamped to \<^verbatim>\<open>0 .. len\<close>.
\<close>

definition py_clamp :: "nat \<Rightarrow> int \<Rightarrow> nat" where
  "py_clamp n i = (if i < 0 then nat (max 0 (int n + i)) else min (nat i) n)"

text \<open>
  \<^verbatim>\<open>list.insert(i, x)\<close> converts its index to the machine type \<^verbatim>\<open>Py_ssize_t\<close> first, 64
  bits wide on the platforms the program runs on: an index outside that range raises
  \<^verbatim>\<open>OverflowError\<close> and leaves the list as it was. Within the range the call never raises.
\<close>

definition py_ssize :: "int \<Rightarrow> bool" where
  "py_ssize i \<longleftrightarrow> - (2 ^ 63) \<le> i \<and> i < 2 ^ 63"

definition py_insert :: "int \<Rightarrow> 'a \<Rightarrow> 'a list \<Rightarrow> error + 'a list" where
  "py_insert i x xs =
     (if py_ssize i
      then (let k = py_clamp (length xs) i in Inr (take k xs @ x # drop k xs))
      else Inl OverflowError)"

text \<open>\<^verbatim>\<open>del xs[i]\<close> raises \<^verbatim>\<open>IndexError\<close> out of range; \<^verbatim>\<open>del xs[a:b]\<close> never raises.\<close>

definition py_del :: "int \<Rightarrow> 'a list \<Rightarrow> error + 'a list" where
  "py_del i xs =
     (if 0 \<le> i \<and> i < int (length xs) then Inr (take (nat i) xs @ drop (Suc (nat i)) xs)
      else if i < 0 \<and> - int (length xs) \<le> i
        then Inr (take (nat (int (length xs) + i)) xs @ drop (Suc (nat (int (length xs) + i))) xs)
      else Inl IndexError)"

definition py_del_slice :: "int \<Rightarrow> int \<Rightarrow> 'a list \<Rightarrow> 'a list" where
  "py_del_slice a b xs =
     (let lo = py_clamp (length xs) a; hi = py_clamp (length xs) b
      in take lo xs @ drop (max lo hi) xs)"

section \<open>Presentation tuples\<close>

text \<open>
  A \<^verbatim>\<open>uuid.UUID\<close> is ordered and compared through its 128-bit integer value, which is
  what the type \<open>uuid\<close> stands for. No arithmetic is done on identifiers.
\<close>

type_synonym uuid = nat

text \<open>
  Modelled from the spec: \<^verbatim>\<open>KIND\<close> of \<^verbatim>\<open>sift.common\<close> and \<^verbatim>\<open>mixing\<close> of
  \<^verbatim>\<open>sift.model.layer\<close> are not part of the sources at hand. The spec names the layer
  variants Image, RGBComposite, Outline and Shape; the module's header names the mixing modes
  normal and additive.
\<close>

datatype kind = IMAGE | RGB | OUTLINE | SHAPE

datatype mixing = NORMAL | ADDITIVE

datatype colormap = CmapName string | CmapUuid uuid

datatype climits =
    CLim real real
  | CLimRGB "(real \<times> real) option" "(real \<times> real) option" "(real \<times> real) option"

text \<open>The named tuple \<^verbatim>\<open>prez\<close>; \<^verbatim>\<open>p._replace(f=v)\<close> is the record update.\<close>

record prez =
  uuid :: uuid
  kind :: kind
  visible :: bool
  a_order :: "int option"
  colormap :: "colormap option"
  climits :: climits
  mixing :: mixing

section \<open>The layer stack\<close>

text \<open>
  A \<^verbatim>\<open>DocLayerStack\<close> holds the list \<^verbatim>\<open>_store\<close> and the cache \<^verbatim>\<open>_u2r\<close>, which is
  \<^verbatim>\<open>None\<close> or a dictionary from identifier to row. The weak reference \<^verbatim>\<open>_doc\<close> is read
  by no operation embedded here.
\<close>

record doc_layer_stack =
  store :: "prez list"
  u2r :: "(uuid \<rightharpoonup> nat) option"

text \<open>
  \<^verbatim>\<open>DocLayerStack.__init__\<close>: from a document with a sequence of entries, or from another
  stack, whose store is copied by \<^verbatim>\<open>list(doc._store)\<close>. In both cases \<^verbatim>\<open>_u2r\<close> keeps
  the class default \<^verbatim>\<open>None\<close>.
\<close>

definition new_stack :: "prez list \<Rightarrow> doc_layer_stack" where
  "new_stack ps = \<lparr>store = ps, u2r = None\<rparr>"


text \<open>\<^verbatim>\<open>__setitem__\<close>: replace in range, append at \<^verbatim>\<open>len\<close>, raise otherwise.\<close>

definition setitem :: "int \<Rightarrow> prez \<Rightarrow> doc_layer_stack \<Rightarrow> (error + unit) \<times> doc_layer_stack" where
  "setitem index v s =
     (if 0 \<le> index \<and> index < int (length (store s))
        then (Inr (), s\<lparr>store := (store s)[nat index := v], u2r := None\<rparr>)
      else if index = int (length (store s))
        then (Inr (), s\<lparr>store := store s @ [v], u2r := None\<rparr>)
      else (Inl IndexError, s))"

text \<open>
  The property \<^verbatim>\<open>uuid2row\<close>: \<^verbatim>\<open>dict((p.uuid, i) for (i, p) in enumerate(self._store))\<close>
  is built when the cache is \<^verbatim>\<open>None\<close>, a later pair overwriting an earlier one with the
  same key, and kept.
\<close>

definition build_u2r :: "prez list \<Rightarrow> (uuid \<rightharpoonup> nat)" where
  "build_u2r ps = fold (\<lambda>(i, p) m. m(uuid p \<mapsto> i)) (enumerate 0 ps) Map.empty"

definition uuid2row :: "doc_layer_stack \<Rightarrow> (uuid \<rightharpoonup> nat) \<times> doc_layer_stack" where
  "uuid2row s =
     (case u2r s of
        None \<Rightarrow> (let m = build_u2r (store s) in (m, s\<lparr>u2r := Some m\<rparr>))
      | Some m \<Rightarrow> (m, s))"

text \<open>
  \<^verbatim>\<open>__getitem__\<close> dispatches on the type of its argument: an \<^verbatim>\<open>int\<close> reads the store,
  a \<^verbatim>\<open>UUID\<close>, a \<^verbatim>\<open>DocLayer\<close> or a \<^verbatim>\<open>prez\<close> is looked up in \<^verbatim>\<open>uuid2row\<close> by its
  identifier (giving a row or \<^verbatim>\<open>None\<close>), anything else (a slice, \<^verbatim>\<open>None\<close>) raises
  \<^verbatim>\<open>ValueError\<close>.
\<close>

datatype key = KInt int | KUuid uuid | KLayer uuid | KPrez prez | KOther

datatype item = ItemPrez prez | ItemRow nat | ItemNone

definition row_item :: "nat option \<Rightarrow> item" where
  "row_item r = (case r of None \<Rightarrow> ItemNone | Some i \<Rightarrow> ItemRow i)"

definition getitem :: "key \<Rightarrow> doc_layer_stack \<Rightarrow> (error + item) \<times> doc_layer_stack" where
  "getitem k s =
     (case k of
        KInt i \<Rightarrow> (case py_index (store s) i of Inl e \<Rightarrow> (Inl e, s) | Inr p \<Rightarrow> (Inr (ItemPrez p), s))
      | KUuid u \<Rightarrow> (let (m, s') = uuid2row s in (Inr (row_item (m u)), s'))
      | KLayer u \<Rightarrow> (let (m, s') = uuid2row s in (Inr (row_item (m u)), s'))
      | KPrez p \<Rightarrow> (let (m, s') = uuid2row s in (Inr (row_item (m (uuid p))), s'))
      | KOther \<Rightarrow> (Inl ValueError, s))"

text \<open>\<^verbatim>\<open>__delitem__\<close> with an integer and with a slice \<^verbatim>\<open>a:b\<close>, and \<^verbatim>\<open>insert\<close>.\<close>

definition delitem :: "int \<Rightarrow> doc_layer_stack \<Rightarrow> (error + unit) \<times> doc_layer_stack" where
  "delitem index s =
     (case py_del index (store s) of
        Inl e \<Rightarrow> (Inl e, s)
      | Inr ps \<Rightarrow> (Inr (), s\<lparr>store := ps, u2r := None\<rparr>))"

definition delitem_slice :: "int \<Rightarrow> int \<Rightarrow> doc_layer_stack \<Rightarrow> doc_layer_stack" where
  "delitem_slice a b s = s\<lparr>store := py_del_slice a b (store s), u2r := None\<rparr>"

definition insert_stack :: "int \<Rightarrow> prez \<Rightarrow> doc_layer_stack \<Rightarrow> (error + unit) \<times> doc_layer_stack" where
  "insert_stack index v s =
     (case py_insert index v (store s) of
        Inl e \<Rightarrow> (Inl e, s)
      | Inr ps \<Rightarrow> (Inr (), s\<lparr>store := ps, u2r := None\<rparr>))"

text \<open>\<^verbatim>\<open>clear_animation_order\<close> rewrites every row in place and leaves the cache alone.\<close>

definition clear_animation_order :: "doc_layer_stack \<Rightarrow> doc_layer_stack" where
  "clear_animation_order s = s\<lparr>store := map (\<lambda>q. q\<lparr>a_order := None\<rparr>) (store s)\<rparr>"

text \<open>\<^verbatim>\<open>index(uuid)\<close> is \<^verbatim>\<open>self.uuid2row.get(uuid, None)\<close>.\<close>

definition index_stack :: "uuid \<Rightarrow> doc_layer_stack \<Rightarrow> nat option \<times> doc_layer_stack" where
  "index_stack u s = (let (m, s') = uuid2row s in (m u, s'))"

text \<open>
  The getter of \<^verbatim>\<open>animation_order\<close>: the pairs \<^verbatim>\<open>(a_order, uuid)\<close> of the rows that have
  an ordinal, sorted as Python sorts tuples (lexicographically, which is the order of pairs of
  \<^verbatim>\<open>HOL-Library.Product_Lexorder\<close>), then the identifiers. It reads \<^verbatim>\<open>_store\<close> and
  assigns nothing; its \<^verbatim>\<open>LOG.debug\<close> line is recorded by the callers that keep a trace.
\<close>

definition aouu :: "doc_layer_stack \<Rightarrow> (int \<times> uuid) list" where
  "aouu s = sort (concat (map (\<lambda>x. case a_order x of None \<Rightarrow> [] | Some a \<Rightarrow> [(a, uuid x)]) (store s)))"

definition animation_order :: "doc_layer_stack \<Rightarrow> uuid list" where
  "animation_order s = map snd (aouu s)"

text \<open>
  The setter of \<^verbatim>\<open>animation_order\<close>: all ordinals are cleared first; then, for the
  element \<open>lu\<close> at position \<open>n\<close> of the sequence, \<^verbatim>\<open>idx = self[lu]\<close> and the row
  \<^verbatim>\<open>idx\<close> gets the ordinal \<open>n\<close>. Only a \<^verbatim>\<open>ValueError\<close> of \<^verbatim>\<open>self[lu]\<close> is caught (a warning is logged and
  the exception raised again). An identifier that is not in the stack makes \<^verbatim>\<open>self[lu]\<close>
  return \<^verbatim>\<open>None\<close>, and \<^verbatim>\<open>self._store[None]\<close> raises \<^verbatim>\<open>TypeError\<close>, as does
  \<^verbatim>\<open>self._store[p]\<close> for the entry \<open>p\<close> that an integer element yields. The second
  component of the result lists the levels of the diagnostics logged.
\<close>

datatype level = DEBUG | INFO | WARNING | ERROR

fun assign_animation_order ::
  "nat \<Rightarrow> key list \<Rightarrow> doc_layer_stack \<Rightarrow> (error + unit) \<times> level list \<times> doc_layer_stack" where
  "assign_animation_order n [] s = (Inr (), [], s)"
| "assign_animation_order n (lu # rest) s =
     (case getitem lu s of
        (Inl e, s') \<Rightarrow> (if e = ValueError then (Inl e, [WARNING], s') else (Inl e, [], s'))
      | (Inr (ItemPrez p), s') \<Rightarrow> (Inl TypeError, [], s')
      | (Inr ItemNone, s') \<Rightarrow> (Inl TypeError, [], s')
      | (Inr (ItemRow idx), s') \<Rightarrow>
          (case py_index (store s') (int idx) of
             Inl e \<Rightarrow> (Inl e, [], s')
           | Inr q \<Rightarrow>
               assign_animation_order (Suc n) rest
                 (s'\<lparr>store := (store s')[idx := q\<lparr>a_order := Some (int n)\<rparr>]\<rparr>)))"

definition animation_order_setter ::
  "key list \<Rightarrow> doc_layer_stack \<Rightarrow> (error + unit) \<times> level list \<times> doc_layer_stack" where
  "animation_order_setter layer_or_uuid_seq s =
     assign_animation_order 0 layer_or_uuid_seq (clear_animation_order s)"

section \<open>Auxiliary notions for the statements\<close>

text \<open>
  Row \<open>i\<close> is the last row of the store that carries the identifier \<open>u\<close>.
\<close>

definition is_last_row :: "prez list \<Rightarrow> uuid \<Rightarrow> nat \<Rightarrow> bool" where
  "is_last_row ps u i \<longleftrightarrow>
     i < length ps \<and> uuid (ps ! i) = u \<and> (\<forall>j. i < j \<and> j < length ps \<longrightarrow> uuid (ps ! j) \<noteq> u)"


text \<open>The cache \<^verbatim>\<open>_u2r\<close> is empty or is the dictionary of the present store.\<close>

definition cache_ok :: "doc_layer_stack \<Rightarrow> bool" where
  "cache_ok s \<longleftrightarrow> u2r s = None \<or> u2r s = Some (build_u2r (store s))"


text \<open>An image entry with the given identifier, visibility and ordinal, for the examples.\<close>

definition image_prez :: "uuid \<Rightarrow> bool \<Rightarrow> int option \<Rightarrow> prez" where
  "image_prez u vis ao =
     \<lparr>uuid = u, kind = IMAGE, visible = vis, a_order = ao, colormap = None,
      climits = CLim 0 1, mixing = NORMAL\<rparr>"


text \<open>
  The operations of a \<^verbatim>\<open>DocLayerStack\<close> as data, and the state each leaves behind,
  whether it returns or raises.
\<close>

datatype stack_op =
    OpSetItem int prez
  | OpDelItem int
  | OpDelSlice int int
  | OpInsert int prez
  | OpClearAnimationOrder
  | OpSetAnimationOrder "key list"
  | OpGetItem key
  | OpIndex uuid

fun apply_stack_op :: "stack_op \<Rightarrow> doc_layer_stack \<Rightarrow> doc_layer_stack" where
  "apply_stack_op (OpSetItem i v) s = snd (setitem i v s)"
| "apply_stack_op (OpDelItem i) s = snd (delitem i s)"
| "apply_stack_op (OpDelSlice a b) s = delitem_slice a b s"
| "apply_stack_op (OpInsert i v) s = snd (insert_stack i v s)"
| "apply_stack_op OpClearAnimationOrder s = clear_animation_order s"
| "apply_stack_op (OpSetAnimationOrder ks) s = snd (snd (animation_order_setter ks s))"
| "apply_stack_op (OpGetItem k) s = snd (getitem k s)"
| "apply_stack_op (OpIndex u) s = snd (index_stack u s)"


section \<open>The document\<close>

text \<open>
  A \<^verbatim>\<open>Document\<close> refers to its layer sets, which are mutable objects: the slots of
  \<^verbatim>\<open>_layer_sets\<close> hold references. The embedding keeps an explicit store of
  \<^verbatim>\<open>DocLayerStack\<close> objects, addressed by natural numbers, and an allocation counter; a slot
  is \<^verbatim>\<open>None\<close> or an address. The list \<^verbatim>\<open>_store\<close> of a stack is created by
  \<^verbatim>\<open>list(...)\<close> in the constructor and handed to nobody, so it is owned by its stack, and
  the entries are immutable named tuples. A slot holding \<^verbatim>\<open>None\<close> or a
  \<^verbatim>\<open>DocLayerStack\<close> is what the class declares and what \<^verbatim>\<open>__init__\<close> and
  \<^verbatim>\<open>select_layer_set\<close> assign. \<^verbatim>\<open>reorder_by_indices\<close> assigns a plain list to a slot; it
  is not embedded, and the documents of this embedding are those it has not been applied to.
\<close>

type_synonym addr = nat

text \<open>
  Modelled from the spec: the values of the catalogue \<^verbatim>\<open>_layer_with_uuid\<close> are objects of
  \<^verbatim>\<open>sift.model.layer\<close>, which is not among the sources at hand. A layer carries the fields
  that \<^verbatim>\<open>document.py\<close> reads through \<^verbatim>\<open>INFO.UUID\<close>, \<^verbatim>\<open>INFO.KIND\<close>, \<^verbatim>\<open>INFO.NAME\<close>
  and \<^verbatim>\<open>INFO.CLIM\<close>, and, for an RGB composite, the identifiers of its red, green and blue
  channel layers. The same type stands for the information dictionaries that the workspace
  hands over.
\<close>

record layer =
  l_uuid :: uuid
  l_kind :: kind
  l_name :: string
  l_clim :: climits
  l_channels :: "uuid option \<times> uuid option \<times> uuid option"

text \<open>
  Modelled from the spec: the collaborators of the document, none of which is among the sources
  at hand, are parameters of the embedding and taken to return normally.
  \<^verbatim>\<open>import_image\<close> is \<^verbatim>\<open>Workspace.import_image\<close> without the overview content, which the
  document only passes on; \<^verbatim>\<open>basic_layer\<close> is the constructor \<^verbatim>\<open>DocBasicLayer(doc, info)\<close>;
  \<^verbatim>\<open>layer_update\<close> is \<^verbatim>\<open>DocLayer.update\<close>; the others are the methods of
  \<^verbatim>\<open>AHI_HSF_Guidebook\<close> that the document calls.
\<close>

record collaborators =
  import_image :: "string \<Rightarrow> uuid \<times> layer"
  basic_layer :: "layer \<Rightarrow> layer"
  layer_update :: "layer \<Rightarrow> layer \<Rightarrow> layer"
  collect_info :: "layer \<Rightarrow> layer"
  default_colormap :: "layer \<Rightarrow> colormap option"
  guide_climits :: "layer \<Rightarrow> climits"
  display_name :: "layer \<Rightarrow> string option"

text \<open>
  The signals of the document that the embedded operations emit, with their arguments. A
  \<^verbatim>\<open>pyqtSignal\<close> checks the arguments of \<^verbatim>\<open>emit\<close> against the types it was declared with.
  \<^verbatim>\<open>didAddBasicLayer\<close> (\<^verbatim>\<open>tuple, UUID, prez\<close>), \<^verbatim>\<open>didRemoveLayers\<close>
  (\<^verbatim>\<open>tuple, list, int, int\<close>), \<^verbatim>\<open>willPurgeLayer\<close> (\<^verbatim>\<open>UUID\<close>) and
  \<^verbatim>\<open>didChangeLayerVisibility\<close> (\<^verbatim>\<open>dict\<close>) are given arguments of these types by the
  operations embedded here. \<^verbatim>\<open>didSwitchLayerSet\<close> is declared with \<^verbatim>\<open>int, tuple, tuple\<close>
  and is given the \<^verbatim>\<open>DocLayerStack\<close> itself as its second argument, which is not a tuple:
  its \<^verbatim>\<open>emit\<close> raises \<^verbatim>\<open>TypeError\<close> and delivers nothing, so it has no constructor here.
\<close>

datatype signal =
    DidAddBasicLayer "nat option list" uuid prez
  | DidRemoveLayers "nat list" "uuid list" int int
  | WillPurgeLayer uuid
  | DidChangeLayerVisibility "(uuid \<times> bool) list"

text \<open>
  What an operation does besides changing the document is recorded, in the order of execution,
  in a trace: the level of each diagnostic logged, each signal emitted, each deletion of a
  catalogue entry (\<^verbatim>\<open>del self._layer_with_uuid[uuid]\<close>) and each call of
  \<^verbatim>\<open>self._workspace.remove(uuid)\<close>.
\<close>

datatype event = Log level | Emit signal | CatalogueDel uuid | WorkspaceRemove uuid

record document =
  current_set_index :: int
  layer_sets :: "addr option list"
  heap :: "addr \<Rightarrow> doc_layer_stack"
  next_addr :: addr
  layer_with_uuid :: "uuid \<rightharpoonup> layer"
  trace :: "event list"

text \<open>
  \<^verbatim>\<open>Document.__init__\<close>: one fresh, empty stack in slot 0 and \<^verbatim>\<open>layer_set_count - 1\<close>
  empty slots (\<^verbatim>\<open>[None] * n\<close> is the empty list for \<open>n \<le> 0\<close>); the class attribute
  \<^verbatim>\<open>current_set_index\<close> is 0.
\<close>

definition document_init :: "int \<Rightarrow> document" where
  "document_init layer_set_count =
     \<lparr>current_set_index = 0,
      layer_sets = Some 0 # replicate (nat (layer_set_count - 1)) None,
      heap = (\<lambda>a. new_stack []),
      next_addr = 1,
      layer_with_uuid = Map.empty,
      trace = []\<rparr>"

text \<open>The property \<^verbatim>\<open>current_layer_set\<close> is \<^verbatim>\<open>self._layer_sets[self.current_set_index]\<close>.\<close>

definition current_layer_set :: "document \<Rightarrow> error + addr option" where
  "current_layer_set d = py_index (layer_sets d) (current_set_index d)"

text \<open>
  \<^verbatim>\<open>_insert_layer_with_info\<close>: the entry \<open>p\<close> is built from the layer, \<open>q\<close> is its invisible
  copy; \<^verbatim>\<open>len(...)\<close> of the current slot raises \<^verbatim>\<open>TypeError\<close> on \<^verbatim>\<open>None\<close>; the loop
  inserts into every slot that is not \<^verbatim>\<open>None\<close>, and an exception of an insertion ends it,
  the insertions made before staying.
\<close>

fun insert_loop ::
  "int \<Rightarrow> prez \<Rightarrow> prez \<Rightarrow> int \<Rightarrow> (nat \<times> addr option) list \<Rightarrow> (addr \<Rightarrow> doc_layer_stack)
     \<Rightarrow> (error + unit) \<times> (addr \<Rightarrow> doc_layer_stack)" where
  "insert_loop insert_before p q csi [] h = (Inr (), h)"
| "insert_loop insert_before p q csi ((dex, None) # rest) h =
     insert_loop insert_before p q csi rest h"
| "insert_loop insert_before p q csi ((dex, Some a) # rest) h =
     (case insert_stack insert_before (if int dex = csi then p else q) (h a) of
        (Inl e, L) \<Rightarrow> (Inl e, h(a := L))
      | (Inr ok, L) \<Rightarrow> insert_loop insert_before p q csi rest (h(a := L)))"

definition insert_layer_with_info ::
  "layer \<Rightarrow> colormap option \<Rightarrow> int \<Rightarrow> document \<Rightarrow> (error + prez \<times> nat option list) \<times> document" where
  "insert_layer_with_info info cmap insert_before d =
     (let p = \<lparr>uuid = l_uuid info, kind = l_kind info, visible = True, a_order = None,
                colormap = cmap, climits = l_clim info, mixing = NORMAL\<rparr>;
          q = p\<lparr>visible := False\<rparr>
      in case current_layer_set d of
           Inl e \<Rightarrow> (Inl e, d)
         | Inr None \<Rightarrow> (Inl TypeError, d)
         | Inr (Some a) \<Rightarrow>
             (let old_layer_count = length (store (heap d a))
              in case insert_loop insert_before p q (current_set_index d)
                        (enumerate 0 (layer_sets d)) (heap d) of
                   (Inl e, h) \<Rightarrow> (Inl e, d\<lparr>heap := h\<rparr>)
                 | (Inr ok, h) \<Rightarrow>
                     (Inr (p, None # map Some [0..<old_layer_count]), d\<lparr>heap := h\<rparr>)))"

text \<open>
  \<^verbatim>\<open>open_file\<close>. When the identifier is already in the catalogue, the argument of
  \<^verbatim>\<open>LOG.warning\<close> is evaluated first: \<^verbatim>\<open>"... {0:s} ...".format(uuid)\<close> applies the format
  specification \<^verbatim>\<open>s\<close> to a \<^verbatim>\<open>UUID\<close>, whose \<^verbatim>\<open>__format__\<close> is that of \<^verbatim>\<open>object\<close> and
  raises \<^verbatim>\<open>TypeError\<close> for a non-empty specification (Python 3.4 and later). Nothing is
  logged and the \<^verbatim>\<open>return\<close> is not reached. Otherwise the layer is entered into the catalogue
  and completed from the guidebook (the catalogue holds the object that is being completed),
  its entries are inserted, and \<^verbatim>\<open>didAddBasicLayer\<close> is emitted. An exception of
  \<^verbatim>\<open>_insert_layer_with_info\<close> leaves the catalogue entry in place.
\<close>

definition open_file ::
  "collaborators \<Rightarrow> string \<Rightarrow> int \<Rightarrow> document \<Rightarrow> (error + uuid \<times> layer) \<times> document" where
  "open_file c path insert_before d =
     (let (u, info) = import_image c path
      in case layer_with_uuid d u of
           Some existing \<Rightarrow> (Inl TypeError, d)
         | None \<Rightarrow>
             (let dataset0 = basic_layer c info;
                  dataset1 = layer_update c dataset0 (collect_info c dataset0);
                  cmap = default_colormap c dataset1;
                  dataset2 = dataset1\<lparr>l_clim := guide_climits c dataset1\<rparr>;
                  dataset = dataset2\<lparr>l_name :=
                    (case display_name c dataset2 of
                       None \<Rightarrow> l_name dataset2
                     | Some n \<Rightarrow> if n = [] then l_name dataset2 else n)\<rparr>;
                  d1 = d\<lparr>layer_with_uuid := (layer_with_uuid d)(u \<mapsto> dataset)\<rparr>
              in case insert_layer_with_info dataset cmap insert_before d1 of
                   (Inl e, d2) \<Rightarrow> (Inl e, d2)
                 | (Inr (presentation, reordered_indices), d2) \<Rightarrow>
                     (Inr (u, dataset),
                      d2\<lparr>trace := trace d2 @
                        [Emit (DidAddBasicLayer reordered_indices (l_uuid dataset) presentation)]\<rparr>)))"

text \<open>
  \<^verbatim>\<open>update_dataset_info\<close>: for an identifier that is not in the catalogue the warning is
  logged (its text is formatted with \<^verbatim>\<open>{0!r:s}\<close>, which converts to a string first), and the
  next statement, which is not guarded, looks the identifier up in the catalogue and raises
  \<^verbatim>\<open>KeyError\<close>.
\<close>

definition update_dataset_info ::
  "collaborators \<Rightarrow> layer \<Rightarrow> document \<Rightarrow> (error + unit) \<times> document" where
  "update_dataset_info c new_info d =
     (let u = l_uuid new_info;
          d1 = (case layer_with_uuid d u of
                  None \<Rightarrow> d\<lparr>trace := trace d @ [Log WARNING]\<rparr>
                | Some known \<Rightarrow> d)
      in case layer_with_uuid d1 (l_uuid new_info) of
           None \<Rightarrow> (Inl KeyError, d1)
         | Some known \<Rightarrow>
             (Inr (), d1\<lparr>layer_with_uuid :=
                (layer_with_uuid d1)(l_uuid new_info \<mapsto> layer_update c known new_info)\<rparr>))"



text \<open>
  \<^verbatim>\<open>row_for_uuid\<close> with one identifier: a dictionary built from the current set, indexed
  without a default.
\<close>

definition row_for_uuid :: "uuid \<Rightarrow> document \<Rightarrow> error + nat" where
  "row_for_uuid u d =
     (case current_layer_set d of
        Inl e \<Rightarrow> Inl e
      | Inr None \<Rightarrow> Inl TypeError
      | Inr (Some a) \<Rightarrow>
          (case build_u2r (store (heap d a)) u of None \<Rightarrow> Inl KeyError | Some i \<Rightarrow> Inr i))"

text \<open>
  \<^verbatim>\<open>toggle_layer_visibility\<close>. The argument is a list of rows and identifiers (a single row
  or identifier is wrapped into a list by the source). In each round an identifier is replaced
  by \<^verbatim>\<open>L.index(dex)\<close>, which may be \<^verbatim>\<open>None\<close>; \<^verbatim>\<open>L[dex]\<close> goes through
  \<^verbatim>\<open>__getitem__\<close> and \<^verbatim>\<open>L[dex] = nu\<close> through \<^verbatim>\<open>__setitem__\<close>. The dictionary \<^verbatim>\<open>zult\<close> is
  kept as an association list. The signal is emitted after the loop; an exception leaves the
  rounds before it done.
\<close>

datatype row_or_uuid = Row int | Uuid uuid

fun toggle_rows ::
  "bool option \<Rightarrow> row_or_uuid list \<Rightarrow> doc_layer_stack \<Rightarrow> (uuid \<times> bool) list
     \<Rightarrow> (error + (uuid \<times> bool) list) \<times> doc_layer_stack" where
  "toggle_rows vis_arg [] L zult = (Inr zult, L)"
| "toggle_rows vis_arg (x # rest) L zult =
     (let (dex, L1) =
            (case x of
               Row i \<Rightarrow> (Some i, L)
             | Uuid u \<Rightarrow> (case index_stack u L of (r, L') \<Rightarrow> (map_option int r, L')))
      in case getitem (case dex of None \<Rightarrow> KOther | Some i \<Rightarrow> KInt i) L1 of
           (Inl e, L2) \<Rightarrow> (Inl e, L2)
         | (Inr (ItemRow r), L2) \<Rightarrow> (Inl AttributeError, L2)
         | (Inr ItemNone, L2) \<Rightarrow> (Inl AttributeError, L2)
         | (Inr (ItemPrez old), L2) \<Rightarrow>
             (let vis = (case vis_arg of None \<Rightarrow> \<not> visible old | Some v \<Rightarrow> v);
                  nu = old\<lparr>visible := vis\<rparr>
              in case setitem (case dex of None \<Rightarrow> 0 | Some i \<Rightarrow> i) nu L2 of
                   (Inl e, L3) \<Rightarrow> (Inl e, L3)
                 | (Inr ok, L3) \<Rightarrow>
                     toggle_rows vis_arg rest L3 (AList.update (uuid nu) (visible nu) zult)))"

definition toggle_layer_visibility ::
  "row_or_uuid list \<Rightarrow> bool option \<Rightarrow> document \<Rightarrow> (error + unit) \<times> document" where
  "toggle_layer_visibility rows_or_uuids vis_arg d =
     (case current_layer_set d of
        Inl e \<Rightarrow> (Inl e, d)
      | Inr None \<Rightarrow>
          (case rows_or_uuids of
             [] \<Rightarrow> (Inr (), d\<lparr>trace := trace d @ [Emit (DidChangeLayerVisibility [])]\<rparr>)
           | Row i # rest \<Rightarrow> (Inl TypeError, d)
           | Uuid u # rest \<Rightarrow> (Inl AttributeError, d))
      | Inr (Some a) \<Rightarrow>
          (case toggle_rows vis_arg rows_or_uuids (heap d a) [] of
             (Inl e, L) \<Rightarrow> (Inl e, d\<lparr>heap := (heap d)(a := L)\<rparr>)
           | (Inr zult, L) \<Rightarrow>
               (Inr (), d\<lparr>heap := (heap d)(a := L),
                           trace := trace d @ [Emit (DidChangeLayerVisibility zult)]\<rparr>)))"

text \<open>
  \<^verbatim>\<open>is_using\<close> logs at error level that composites are not checked, and then looks for the
  identifier in the entries of one layer set or of all that are not \<^verbatim>\<open>None\<close>. It does not
  read the catalogue.
\<close>

fun non_none :: "addr option list \<Rightarrow> addr list" where
  "non_none [] = []"
| "non_none (None # qs) = non_none qs"
| "non_none (Some a # qs) = a # non_none qs"

definition is_using :: "uuid \<Rightarrow> int option \<Rightarrow> document \<Rightarrow> (error + bool) \<times> document" where
  "is_using u layer_set d =
     (let d1 = d\<lparr>trace := trace d @ [Log ERROR]\<rparr>
      in case layer_set of
           Some i \<Rightarrow>
             (case py_index (layer_sets d1) i of
                Inl e \<Rightarrow> (Inl e, d1)
              | Inr None \<Rightarrow> (Inl TypeError, d1)
              | Inr (Some a) \<Rightarrow> (Inr (list_ex (\<lambda>p. uuid p = u) (store (heap d1 a))), d1))
         | None \<Rightarrow>
             (Inr (list_ex (\<lambda>a. list_ex (\<lambda>p. uuid p = u) (store (heap d1 a)))
                     (non_none (layer_sets d1))), d1))"

text \<open>
  The last loop of \<^verbatim>\<open>remove_layer_prez\<close>: an identifier that no layer set uses is purged:
  the diagnostic, the signal \<^verbatim>\<open>willPurgeLayer\<close>, the deletion from the catalogue
  (\<^verbatim>\<open>KeyError\<close> if it is not there), the release by the workspace.
\<close>

fun purge_unused :: "uuid list \<Rightarrow> document \<Rightarrow> (error + unit) \<times> document" where
  "purge_unused [] d = (Inr (), d)"
| "purge_unused (u # rest) d =
     (case is_using u None d of
        (Inl e, d1) \<Rightarrow> (Inl e, d1)
      | (Inr True, d1) \<Rightarrow> purge_unused rest d1
      | (Inr False, d1) \<Rightarrow>
          (let d2 = d1\<lparr>trace := trace d1 @ [Log INFO, Emit (WillPurgeLayer u)]\<rparr>
           in case layer_with_uuid d2 u of
                None \<Rightarrow> (Inl KeyError, d2)
              | Some l \<Rightarrow>
                  purge_unused rest
                    (d2\<lparr>layer_with_uuid := (layer_with_uuid d2)(u := None),
                        trace := trace d2 @ [CatalogueDel u, WorkspaceRemove u]\<rparr>)))"

text \<open>
  \<^verbatim>\<open>remove_layer_prez\<close>. With an identifier and \<^verbatim>\<open>count == 1\<close> the row comes from
  \<^verbatim>\<open>row_for_uuid\<close>. Otherwise the identifiers are read from
  \<^verbatim>\<open>self.current_layer_set[row:row+count]\<close>: with an identifier, \<^verbatim>\<open>row+count\<close> raises
  \<^verbatim>\<open>TypeError\<close>; with a row, the slice reaches \<^verbatim>\<open>DocLayerStack.__getitem__\<close>, which
  raises \<^verbatim>\<open>ValueError\<close> for it (and subscripting \<^verbatim>\<open>None\<close> raises \<^verbatim>\<open>TypeError\<close>). After
  that: the rows are made invisible, removed by \<^verbatim>\<open>__delitem__\<close> with the slice, the signal
  \<^verbatim>\<open>didRemoveLayers\<close> is emitted and the unused identifiers are purged.
\<close>

definition remove_rows :: "int \<Rightarrow> int \<Rightarrow> uuid list \<Rightarrow> document \<Rightarrow> (error + unit) \<times> document" where
  "remove_rows row cnt uuids d =
     (case toggle_layer_visibility (map Row [row..row + cnt - 1]) (Some False) d of
        (Inl e, d1) \<Rightarrow> (Inl e, d1)
      | (Inr ok, d1) \<Rightarrow>
          (case current_layer_set d1 of
             Inl e \<Rightarrow> (Inl e, d1)
           | Inr None \<Rightarrow> (Inl TypeError, d1)
           | Inr (Some a) \<Rightarrow>
               (let clo = py_del_slice row (row + cnt) [0..<length (store (heap d1 a))];
                    d2 = d1\<lparr>heap := (heap d1)(a := delitem_slice row (row + cnt) (heap d1 a))\<rparr>;
                    d3 = d2\<lparr>trace := trace d2 @ [Emit (DidRemoveLayers clo uuids row cnt)]\<rparr>
                in purge_unused uuids d3)))"

definition remove_layer_prez :: "row_or_uuid \<Rightarrow> int \<Rightarrow> document \<Rightarrow> (error + unit) \<times> document" where
  "remove_layer_prez row_or_uuid cnt d =
     (case row_or_uuid of
        Uuid u \<Rightarrow>
          (if cnt = 1
           then (case row_for_uuid u d of
                   Inl e \<Rightarrow> (Inl e, d)
                 | Inr row \<Rightarrow> remove_rows (int row) cnt [u] d)
           else (case current_layer_set d of
                   Inl e \<Rightarrow> (Inl e, d)
                 | Inr cur \<Rightarrow> (Inl TypeError, d)))
      | Row row \<Rightarrow>
          (case current_layer_set d of
             Inl e \<Rightarrow> (Inl e, d)
           | Inr None \<Rightarrow> (Inl TypeError, d)
           | Inr (Some a) \<Rightarrow> (Inl ValueError, d)))"

text \<open>
  \<^verbatim>\<open>remove_layers_from_all_sets\<close>: for each identifier, the first entry that carries it is
  deleted from every layer set other than the current one, then \<^verbatim>\<open>remove_layer_prez\<close>
  removes it from the current one.
\<close>

fun first_row :: "uuid \<Rightarrow> prez list \<Rightarrow> nat option" where
  "first_row u [] = None"
| "first_row u (p # ps) = (if uuid p = u then Some 0 else map_option Suc (first_row u ps))"

fun remove_from_others ::
  "uuid \<Rightarrow> int \<Rightarrow> (nat \<times> addr option) list \<Rightarrow> (addr \<Rightarrow> doc_layer_stack)
     \<Rightarrow> (addr \<Rightarrow> doc_layer_stack)" where
  "remove_from_others u csi [] h = h"
| "remove_from_others u csi ((dex, None) # rest) h = remove_from_others u csi rest h"
| "remove_from_others u csi ((dex, Some a) # rest) h =
     (if int dex = csi then remove_from_others u csi rest h
      else remove_from_others u csi rest
             (case first_row u (store (h a)) of
                None \<Rightarrow> h
              | Some pdex \<Rightarrow> h(a := snd (delitem (int pdex) (h a)))))"

fun remove_layers_from_all_sets :: "uuid list \<Rightarrow> document \<Rightarrow> (error + unit) \<times> document" where
  "remove_layers_from_all_sets [] d = (Inr (), d)"
| "remove_layers_from_all_sets (u # rest) d =
     (let d1 = d\<lparr>trace := trace d @ [Log DEBUG]\<rparr>;
          d2 = d1\<lparr>heap := remove_from_others u (current_set_index d1)
                          (enumerate 0 (layer_sets d1)) (heap d1)\<rparr>
      in case remove_layer_prez (Uuid u) 1 d2 of
           (Inl e, d3) \<Rightarrow> (Inl e, d3)
         | (Inr ok, d3) \<Rightarrow> remove_layers_from_all_sets rest d3)"

section \<open>Auxiliary notions for the statements about the document\<close>

text \<open>
  A document is well formed when the current index denotes a slot, that slot holds a layer
  set, no two slots hold the same layer set, and every layer set in a slot has been allocated.
  \<^verbatim>\<open>Document.__init__\<close> establishes this, and the operations embedded above assign slots only
  in \<^verbatim>\<open>select_layer_set\<close>, with a new object.
\<close>

definition wf_document :: "document \<Rightarrow> bool" where
  "wf_document d \<longleftrightarrow>
     0 \<le> current_set_index d \<and> current_set_index d < int (length (layer_sets d))
     \<and> layer_sets d ! nat (current_set_index d) \<noteq> None
     \<and> distinct (non_none (layer_sets d))
     \<and> (\<forall>a \<in> set (non_none (layer_sets d)). a < next_addr d)"

text \<open>
  Collaborators and a layer for the examples: importing a path yields an image layer whose
  identifier is the length of the path.
\<close>

definition example_layer :: "uuid \<Rightarrow> layer" where
  "example_layer u =
     \<lparr>l_uuid = u, l_kind = IMAGE, l_name = ''layer'', l_clim = CLim 0 1,
      l_channels = (None, None, None)\<rparr>"

definition example_collaborators :: collaborators where
  "example_collaborators =
     \<lparr>import_image = (\<lambda>path. (length path, example_layer (length path))),
      basic_layer = (\<lambda>info. info),
      layer_update = (\<lambda>old new. new),
      collect_info = (\<lambda>l. l),
      default_colormap = (\<lambda>l. None),
      guide_climits = (\<lambda>l. CLim 0 1),
      display_name = (\<lambda>l. None)\<rparr>"

text \<open>
  A document for the examples: three slots, the first two holding a layer set with one entry
  for the layer 5 each, the second one current, the third empty.
\<close>

definition example_document :: document where
  "example_document =
     \<lparr>current_set_index = 1,
      layer_sets = [Some 0, Some 1, None],
      heap = (\<lambda>a. new_stack [])
               (0 := new_stack [image_prez 5 True None],
                1 := new_stack [image_prez 5 False (Some 0)]),
      next_addr = 2,
      layer_with_uuid = [5 \<mapsto> example_layer 5],
      trace = []\<rparr>"

text \<open>An RGB composite layer \<open>c\<close> whose red channel is the layer \<open>u\<close>, for the examples.\<close>

definition example_rgb_layer :: "uuid \<Rightarrow> uuid \<Rightarrow> layer" where
  "example_rgb_layer c u =
     \<lparr>l_uuid = c, l_kind = RGB, l_name = ''rgb'', l_clim = CLimRGB None None None,
      l_channels = (Some u, None, None)\<rparr>"


section \<open>Properties of the layer stack\<close>

lemma py_clamp_le: "py_clamp n i \<le> n"
  unfolding py_clamp_def by (cases "i < 0") auto

lemma build_u2r_snoc: "build_u2r (ps @ [p]) = (build_u2r ps)(uuid p \<mapsto> length ps)"
  by (simp add: build_u2r_def enumerate_append_eq)

lemma build_u2r_Nil: "build_u2r [] = Map.empty"
  by (simp add: build_u2r_def)

lemma build_u2r_last_row: "build_u2r ps u = Some i \<longleftrightarrow> is_last_row ps u i"
proof (induction ps rule: rev_induct)
  case Nil
  show ?case by (simp add: build_u2r_Nil is_last_row_def)
next
  case (snoc p ps)
  show ?case
  proof (cases "uuid p = u")
    case True
    have "is_last_row (ps @ [p]) u i \<longleftrightarrow> i = length ps"
    proof
      assume a: "is_last_row (ps @ [p]) u i"
      show "i = length ps"
      proof (rule ccontr)
        assume "i \<noteq> length ps"
        with a have "i < length ps" by (simp add: is_last_row_def)
        with a True show False by (auto simp: is_last_row_def  dest!: spec[of _ "length ps"])
      qed
    next
      assume "i = length ps"
      with True show "is_last_row (ps @ [p]) u i" by (simp add: is_last_row_def)
    qed
    with True show ?thesis by (auto simp: build_u2r_snoc)
  next
    case False
    have "is_last_row (ps @ [p]) u i \<longleftrightarrow> is_last_row ps u i"
      using False by (auto simp: is_last_row_def nth_append less_Suc_eq)
    with False snoc show ?thesis by (simp add: build_u2r_snoc)
  qed
qed

lemma is_last_row_map_uuid:
  "is_last_row ps u i \<longleftrightarrow>
     i < length ps \<and> map uuid ps ! i = u \<and> (\<forall>j. i < j \<and> j < length ps \<longrightarrow> map uuid ps ! j \<noteq> u)"
  unfolding is_last_row_def by (metis nth_map)

lemma is_last_row_cong:
  assumes "map uuid ps = map uuid qs"
  shows "is_last_row ps u i = is_last_row qs u i"
proof -
  have len: "length ps = length qs" using assms by (rule map_eq_imp_length_eq)
  show ?thesis unfolding is_last_row_map_uuid assms len ..
qed

lemma option_eq_by_Some:
  assumes "\<And>i. x = Some i \<longleftrightarrow> y = Some i"
  shows "x = y"
proof (cases x)
  case None
  then have "y \<noteq> Some i" for i using assms[of i] by simp
  then have "y = None" by (cases y) blast+
  with None show ?thesis by simp
next
  case (Some a)
  then show ?thesis using assms[of a] by simp
qed

lemma build_u2r_cong:
  assumes "map uuid ps = map uuid qs"
  shows "build_u2r ps = build_u2r qs"
proof
  fix u
  show "build_u2r ps u = build_u2r qs u"
    by (rule option_eq_by_Some) (simp add: build_u2r_last_row is_last_row_cong[OF assms])
qed

lemma build_u2r_dom: "build_u2r ps u = None \<longleftrightarrow> u \<notin> uuid ` set ps"
proof (induction ps rule: rev_induct)
  case Nil show ?case by (simp add: build_u2r_Nil)
next
  case (snoc p ps) then show ?case by (auto simp: build_u2r_snoc)
qed

lemma build_u2r_distinct:
  assumes "distinct (map uuid ps)" "i < length ps"
  shows "build_u2r ps (uuid (ps ! i)) = Some i"
proof -
  have "is_last_row ps (uuid (ps ! i)) i"
    unfolding is_last_row_def using assms
    by (auto simp: distinct_conv_nth)
  then show ?thesis by (simp add: build_u2r_last_row)
qed

lemma uuid2row_fresh: "cache_ok s \<Longrightarrow> fst (uuid2row s) = build_u2r (store s)"
  by (auto simp: cache_ok_def uuid2row_def Let_def)


lemma uuid2row_cache_ok: "cache_ok s \<Longrightarrow> cache_ok (snd (uuid2row s))"
  by (auto simp: cache_ok_def uuid2row_def Let_def split: option.splits)

lemma cache_ok_store_update:
  "cache_ok s \<Longrightarrow> map uuid ps = map uuid (store s) \<Longrightarrow> cache_ok (s\<lparr>store := ps\<rparr>)"
  by (auto simp: cache_ok_def dest: build_u2r_cong)

lemma cache_ok_new_stack: "cache_ok (new_stack ps)"
  by (simp add: cache_ok_def new_stack_def)

lemma cache_ok_setitem: "cache_ok s \<Longrightarrow> cache_ok (snd (setitem i v s))"
  by (simp add: setitem_def cache_ok_def)

lemma cache_ok_delitem: "cache_ok s \<Longrightarrow> cache_ok (snd (delitem i s))"
  by (auto simp: delitem_def cache_ok_def split: sum.splits)

lemma cache_ok_delitem_slice: "cache_ok (delitem_slice a b s)"
  by (simp add: delitem_slice_def cache_ok_def)

lemma cache_ok_insert_stack: "cache_ok s \<Longrightarrow> cache_ok (snd (insert_stack i v s))"
  by (simp add: insert_stack_def cache_ok_def split: sum.splits)

lemma cache_ok_clear: "cache_ok s \<Longrightarrow> cache_ok (clear_animation_order s)"
  unfolding clear_animation_order_def
  by (rule cache_ok_store_update) (simp_all add: comp_def)

lemma getitem_cache_ok: "cache_ok s \<Longrightarrow> cache_ok (snd (getitem k s))"
  by (cases k)
     (auto simp: getitem_def split_def Let_def uuid2row_cache_ok split: sum.splits)


lemma index_stack_cache_ok: "cache_ok s \<Longrightarrow> cache_ok (snd (index_stack u s))"
  by (simp add: index_stack_def split_def Let_def uuid2row_cache_ok)

lemma py_index_nat: "py_index xs (int i) = Inr q \<Longrightarrow> i < length xs \<and> q = xs ! i"
  by (auto simp: py_index_def split: if_splits)


lemma map_uuid_set_a_order:
  "i < length ps \<Longrightarrow> map uuid (ps[i := (ps ! i)\<lparr>a_order := x\<rparr>]) = map uuid ps"
  by (simp add: map_update list_update_same_conv)

lemma assign_Cons_err:
  "getitem k s = (Inl e, s1) \<Longrightarrow>
   snd (snd (assign_animation_order n (k # ks) s)) = s1"
  by simp

lemma assign_Cons_prez:
  "getitem k s = (Inr (ItemPrez p), s1) \<Longrightarrow>
   assign_animation_order n (k # ks) s = (Inl TypeError, [], s1)"
  by simp

lemma assign_Cons_none:
  "getitem k s = (Inr ItemNone, s1) \<Longrightarrow>
   assign_animation_order n (k # ks) s = (Inl TypeError, [], s1)"
  by simp

lemma assign_Cons_row_err:
  "getitem k s = (Inr (ItemRow idx), s1) \<Longrightarrow> py_index (store s1) (int idx) = Inl e \<Longrightarrow>
   assign_animation_order n (k # ks) s = (Inl e, [], s1)"
  by simp

lemma assign_Cons_row:
  "getitem k s = (Inr (ItemRow idx), s1) \<Longrightarrow> py_index (store s1) (int idx) = Inr q \<Longrightarrow>
   assign_animation_order n (k # ks) s =
     assign_animation_order (Suc n) ks
       (s1\<lparr>store := (store s1)[idx := q\<lparr>a_order := Some (int n)\<rparr>]\<rparr>)"
  by simp


lemma assign_cache_ok:
  "cache_ok s \<Longrightarrow> cache_ok (snd (snd (assign_animation_order n ks s)))"
proof (induction ks arbitrary: n s)
  case Nil
  then show ?case by simp
next
  case (Cons k ks)
  obtain r s1 where g: "getitem k s = (r, s1)" by (cases "getitem k s")
  have "cache_ok (snd (getitem k s))" by (rule getitem_cache_ok[OF Cons.prems])
  then have ok1: "cache_ok s1" unfolding g by simp
  show ?case
  proof (cases r)
    case (Inl e)
    show ?thesis using ok1 assign_Cons_err[OF g[unfolded Inl]] by simp
  next
    case (Inr it)
    note g' = g[unfolded Inr]
    show ?thesis
    proof (cases it)
      case (ItemPrez p)
      show ?thesis unfolding assign_Cons_prez[OF g'[unfolded ItemPrez]] using ok1 by simp
    next
      case ItemNone
      show ?thesis unfolding assign_Cons_none[OF g'[unfolded ItemNone]] using ok1 by simp
    next
      case (ItemRow idx)
      note g'' = g'[unfolded ItemRow]
      show ?thesis
      proof (cases "py_index (store s1) (int idx)")
        case (Inl e)
        show ?thesis unfolding assign_Cons_row_err[OF g'' Inl] using ok1 by simp
      next
        case (Inr q)
        have q1: "idx < length (store s1)" and q2: "q = store s1 ! idx"
          using py_index_nat[OF Inr] by simp_all
        have m: "map uuid ((store s1)[idx := q\<lparr>a_order := Some (int n)\<rparr>]) = map uuid (store s1)"
          unfolding q2 by (rule map_uuid_set_a_order[OF q1])
        have "cache_ok (s1\<lparr>store := (store s1)[idx := q\<lparr>a_order := Some (int n)\<rparr>]\<rparr>)"
          by (rule cache_ok_store_update[OF ok1 m])
        then show ?thesis unfolding assign_Cons_row[OF g'' Inr] by (rule Cons.IH)
      qed
    qed
  qed
qed

lemma cache_ok_setter: "cache_ok s \<Longrightarrow> cache_ok (snd (snd (animation_order_setter ks s)))"
  by (simp add: animation_order_setter_def assign_cache_ok cache_ok_clear)

lemma cache_ok_apply_stack_op: "cache_ok s \<Longrightarrow> cache_ok (apply_stack_op op s)"
  by (cases op)
     (simp_all add: cache_ok_setitem cache_ok_delitem cache_ok_delitem_slice cache_ok_insert_stack
        cache_ok_clear cache_ok_setter getitem_cache_ok index_stack_cache_ok)

lemma cache_ok_fold: "cache_ok s \<Longrightarrow> cache_ok (fold apply_stack_op ops s)"
  by (induction ops arbitrary: s) (simp_all add: cache_ok_apply_stack_op)

subsection \<open>Claim C1: assigning the animation order\<close>


lemma is_last_row_uuid: "is_last_row ps u i \<Longrightarrow> i < length ps \<and> uuid (ps ! i) = u"
  by (simp add: is_last_row_def)

lemma present_last_row: "u \<in> uuid ` set ps \<Longrightarrow> \<exists>i. is_last_row ps u i"
  using build_u2r_dom[of ps u] build_u2r_last_row[of ps u] by (cases "build_u2r ps u") auto









lemma store_new_stack: "store (new_stack ps) = ps"
  by (simp add: new_stack_def)

lemma is_last_row_distinct:
  "distinct (map uuid ps) \<Longrightarrow> i < length ps \<Longrightarrow> is_last_row ps (uuid (ps ! i)) i"
  using build_u2r_distinct[of ps i] by (simp add: build_u2r_last_row)






subsection \<open>Claim C6: inserting an entry\<close>

lemma py_insert_cases:
  assumes "py_ssize i"
  shows "(0 \<le> i \<and> i \<le> int (length xs) \<longrightarrow>
            py_insert i x xs = Inr (take (nat i) xs @ x # drop (nat i) xs))
   \<and> (int (length xs) < i \<longrightarrow> py_insert i x xs = Inr (xs @ [x]))
   \<and> (i < 0 \<and> - int (length xs) \<le> i \<longrightarrow>
        py_insert i x xs =
          Inr (take (nat (int (length xs) + i)) xs @ x # drop (nat (int (length xs) + i)) xs))
   \<and> (i < - int (length xs) \<longrightarrow> py_insert i x xs = Inr (x # xs))"
  using assms by (auto simp: py_insert_def py_clamp_def Let_def min_def max_def)

lemma py_insert_overflow: "\<not> py_ssize i \<Longrightarrow> py_insert i x xs = Inl OverflowError"
  by (simp add: py_insert_def)

lemma py_insert_returns: "py_ssize i \<Longrightarrow> \<exists>ys. py_insert i x xs = Inr ys"
  by (simp add: py_insert_def Let_def)

text \<open>
  Claim C6, as the code has it. \<^verbatim>\<open>DocLayerStack.insert\<close> hands the index to
  \<^verbatim>\<open>list.insert\<close> and has no range check of its own. For an index in the range of
  \<^verbatim>\<open>Py_ssize_t\<close> the call returns normally and drops the cache: for \<open>0 \<le> index \<le> n\<close> the
  entry is placed at that position (appended when \<open>index = n\<close>); an index beyond \<open>n\<close>
  appends; a negative index counts from the end and is clamped to the front. An index outside
  the range of \<^verbatim>\<open>Py_ssize_t\<close> raises \<^verbatim>\<open>OverflowError\<close> and leaves the stack, cache
  included, as it was. No index raises \<^verbatim>\<open>IndexError\<close>.
\<close>

theorem insert_stack_places_entry:
  "(py_ssize index \<longrightarrow>
      fst (insert_stack index v s) = Inr () \<and> u2r (snd (insert_stack index v s)) = None)
   \<and> (py_ssize index \<and> 0 \<le> index \<and> index \<le> int (length (store s)) \<longrightarrow>
        store (snd (insert_stack index v s)) =
          take (nat index) (store s) @ v # drop (nat index) (store s))
   \<and> (py_ssize index \<and> int (length (store s)) < index \<longrightarrow>
        store (snd (insert_stack index v s)) = store s @ [v])
   \<and> (py_ssize index \<and> index < 0 \<and> - int (length (store s)) \<le> index \<longrightarrow>
        store (snd (insert_stack index v s)) =
          take (nat (int (length (store s)) + index)) (store s) @ v #
          drop (nat (int (length (store s)) + index)) (store s))
   \<and> (py_ssize index \<and> index < - int (length (store s)) \<longrightarrow>
        store (snd (insert_stack index v s)) = v # store s)
   \<and> (\<not> py_ssize index \<longrightarrow> insert_stack index v s = (Inl OverflowError, s))
   \<and> fst (insert_stack index v s) \<noteq> Inl IndexError"
proof (cases "py_ssize index")
  case True
  from py_insert_returns[OF True, of v "store s"] obtain ys where
    ys: "py_insert index v (store s) = Inr ys" ..
  show ?thesis using True py_insert_cases[OF True, of "store s" v] ys
    by (simp add: insert_stack_def)
next
  case False
  then show ?thesis by (simp add: insert_stack_def py_insert_overflow)
qed

text \<open>
  The cases of the statement at a stack of two entries: the four positions, and the index
  \<open>2\<^sup>6\<^sup>3\<close>, which raises.
\<close>

theorem insert_stack_places_entry_witness:
  "store (snd (insert_stack 1 (image_prez 3 True None)
          (new_stack [image_prez 1 True None, image_prez 2 True None])))
     = [image_prez 1 True None, image_prez 3 True None, image_prez 2 True None]
   \<and> store (snd (insert_stack 5 (image_prez 3 True None)
          (new_stack [image_prez 1 True None, image_prez 2 True None])))
     = [image_prez 1 True None, image_prez 2 True None, image_prez 3 True None]
   \<and> store (snd (insert_stack (- 1) (image_prez 3 True None)
          (new_stack [image_prez 1 True None, image_prez 2 True None])))
     = [image_prez 1 True None, image_prez 3 True None, image_prez 2 True None]
   \<and> store (snd (insert_stack (- 5) (image_prez 3 True None)
          (new_stack [image_prez 1 True None, image_prez 2 True None])))
     = [image_prez 3 True None, image_prez 1 True None, image_prez 2 True None]
   \<and> insert_stack (2 ^ 63) (image_prez 3 True None)
          (new_stack [image_prez 1 True None, image_prez 2 True None])
     = (Inl OverflowError, new_stack [image_prez 1 True None, image_prez 2 True None])"
proof -
  let ?s = "new_stack [image_prez 1 True None, image_prez 2 True None]"
  let ?v = "image_prez 3 True None"
  have r: "py_ssize 1" "py_ssize 5" "py_ssize (- 1)" "py_ssize (- 5)" "\<not> py_ssize (2 ^ 63)"
    by (simp_all add: py_ssize_def)
  have st: "store ?s = [image_prez 1 True None, image_prez 2 True None]"
    by (rule store_new_stack)
  from insert_stack_places_entry[of 1 ?v ?s] r(1)
  have a: "store (snd (insert_stack 1 ?v ?s)) = take (nat 1) (store ?s) @ ?v # drop (nat 1) (store ?s)"
    by (simp add: store_new_stack)
  from insert_stack_places_entry[of 5 ?v ?s] r(2)
  have b: "store (snd (insert_stack 5 ?v ?s)) = store ?s @ [?v]"
    by (simp add: store_new_stack)
  from insert_stack_places_entry[of "- 1" ?v ?s] r(3)
  have c: "store (snd (insert_stack (- 1) ?v ?s)) =
      take (nat (int (length (store ?s)) + (- 1))) (store ?s) @ ?v #
      drop (nat (int (length (store ?s)) + (- 1))) (store ?s)"
    by (simp add: store_new_stack)
  from insert_stack_places_entry[of "- 5" ?v ?s] r(4)
  have d: "store (snd (insert_stack (- 5) ?v ?s)) = ?v # store ?s"
    by (simp add: store_new_stack)
  from insert_stack_places_entry[of "2 ^ 63" ?v ?s] r(5)
  have e: "insert_stack (2 ^ 63) ?v ?s = (Inl OverflowError, ?s)" by blast
  have "store (snd (insert_stack 1 ?v ?s)) = [image_prez 1 True None, ?v, image_prez 2 True None]"
    unfolding a st by simp
  moreover have "store (snd (insert_stack 5 ?v ?s)) = [image_prez 1 True None, image_prez 2 True None, ?v]"
    unfolding b st by simp
  moreover have "store (snd (insert_stack (- 1) ?v ?s)) = [image_prez 1 True None, ?v, image_prez 2 True None]"
    unfolding c st by simp
  moreover have "store (snd (insert_stack (- 5) ?v ?s)) = [?v, image_prez 1 True None, image_prez 2 True None]"
    unfolding d st by simp
  ultimately show ?thesis using e by blast
qed

text \<open>
  Claim C6 as stated fails: the index 1 lies outside \<open>[0, 0]\<close> for the empty stack, yet
  the call does not fail and the stack does not stay unchanged; the entry is appended.
\<close>

theorem insert_stack_out_of_range_counterexample:
  "fst (insert_stack 1 (image_prez 3 True None) (new_stack [])) = Inr ()
   \<and> store (snd (insert_stack 1 (image_prez 3 True None) (new_stack []))) = [image_prez 3 True None]
   \<and> store (snd (insert_stack 1 (image_prez 3 True None) (new_stack []))) \<noteq> store (new_stack [])"
  by (simp add: insert_stack_def new_stack_def py_insert_def py_clamp_def py_ssize_def)

subsection \<open>Claim C8: reading the animation order\<close>

lemma mset_aouu_pairs:
  "mset (concat (map (\<lambda>x. case a_order x of None \<Rightarrow> [] | Some a \<Rightarrow> [(a, uuid x)]) ps))
     = image_mset (\<lambda>x. (the (a_order x), uuid x)) (filter_mset (\<lambda>x. a_order x \<noteq> None) (mset ps))"
  by (induction ps) (auto split: option.splits)

lemma sorted_lex_pairs:
  "sorted (ps :: (int \<times> uuid) list) \<Longrightarrow>
     sorted_wrt (\<lambda>p q. fst p < fst q \<or> (fst p = fst q \<and> snd p \<le> snd q)) ps"
  by (erule sorted_wrt_mono_rel[rotated]) (auto simp: less_eq_prod_def)

text \<open>
  Claim C8. The getter \<^verbatim>\<open>animation_order\<close> returns the identifiers of exactly the
  entries whose ordinal is not \<^verbatim>\<open>None\<close> (with their multiplicities), in the order of
  the pairs (ordinal, identifier) sorted by ordinal first and identifier as tie-break. The
  getter is a function of the store alone and returns no new state: it mutates nothing.
\<close>

theorem animation_order_sorted_identifiers:
  "animation_order s = map snd (aouu s)
   \<and> mset (aouu s) =
       image_mset (\<lambda>x. (the (a_order x), uuid x)) (filter_mset (\<lambda>x. a_order x \<noteq> None) (mset (store s)))
   \<and> sorted_wrt (\<lambda>p q. fst p < fst q \<or> (fst p = fst q \<and> snd p \<le> snd q)) (aouu s)
   \<and> mset (animation_order s) =
       image_mset uuid (filter_mset (\<lambda>x. a_order x \<noteq> None) (mset (store s)))"
proof -
  have m: "mset (aouu s) =
       image_mset (\<lambda>x. (the (a_order x), uuid x)) (filter_mset (\<lambda>x. a_order x \<noteq> None) (mset (store s)))"
    by (simp add: aouu_def mset_aouu_pairs)
  have srt: "sorted_wrt (\<lambda>p q. fst p < fst q \<or> (fst p = fst q \<and> snd p \<le> snd q)) (aouu s)"
    by (rule sorted_lex_pairs) (simp add: aouu_def)
  have "mset (animation_order s) = image_mset snd (mset (aouu s))"
    by (simp add: animation_order_def)
  also have "\<dots> = image_mset uuid (filter_mset (\<lambda>x. a_order x \<noteq> None) (mset (store s)))"
    by (simp add: m multiset.map_comp comp_def)
  finally show ?thesis using m srt by (simp add: animation_order_def)
qed

lemma animation_order_example:
  "animation_order (new_stack [image_prez 7 True (Some 1), image_prez 3 True (Some 1),
      image_prez 9 False None, image_prez 5 False (Some 0)]) = [5, 3, 7]"
  by (simp add: animation_order_def aouu_def new_stack_def image_prez_def)

subsection \<open>Claim C9: the identifier-to-row cache\<close>

text \<open>
  Claim C9, as the code has it. After any sequence of operations on a freshly constructed
  stack, \<^verbatim>\<open>uuid2row\<close> is the dictionary of the present store, never a stale one: it maps
  \<open>u\<close> to \<open>i\<close> exactly when \<open>i\<close> is the last row whose entry carries \<open>u\<close>. When the
  identifiers of the store are pairwise distinct, this is exactly when row \<open>i\<close> carries \<open>u\<close>.
\<close>

theorem uuid2row_never_stale:
  assumes "s = fold apply_stack_op ops (new_stack ps)"
  shows "(fst (uuid2row s) u = Some i \<longleftrightarrow>
            i < length (store s) \<and> uuid (store s ! i) = u
            \<and> (\<forall>j. i < j \<and> j < length (store s) \<longrightarrow> uuid (store s ! j) \<noteq> u))
         \<and> (distinct (map uuid (store s)) \<longrightarrow>
              (fst (uuid2row s) u = Some i \<longleftrightarrow> i < length (store s) \<and> uuid (store s ! i) = u))"
proof -
  have ok: "cache_ok s" unfolding assms by (rule cache_ok_fold[OF cache_ok_new_stack])
  have eq: "fst (uuid2row s) = build_u2r (store s)" by (rule uuid2row_fresh[OF ok])
  have a: "fst (uuid2row s) u = Some i \<longleftrightarrow> is_last_row (store s) u i"
    by (simp add: eq build_u2r_last_row)
  have b: "fst (uuid2row s) u = Some i \<longleftrightarrow> i < length (store s) \<and> uuid (store s ! i) = u"
    if d: "distinct (map uuid (store s))"
  proof
    assume "fst (uuid2row s) u = Some i"
    with a show "i < length (store s) \<and> uuid (store s ! i) = u" by (simp add: is_last_row_def)
  next
    assume "i < length (store s) \<and> uuid (store s ! i) = u"
    with build_u2r_distinct[OF d, of i] show "fst (uuid2row s) u = Some i" by (simp add: eq)
  qed
  from a b show ?thesis by (simp add: is_last_row_def)
qed

text \<open>
  An instance: insert, look up (which fills the cache), insert again (which shifts the rows);
  the identifier 1 is then found at row 1, where it now stands.
\<close>

theorem uuid2row_never_stale_witness:
  "fst (uuid2row (fold apply_stack_op
          [OpInsert 0 (image_prez 1 True None), OpIndex 1, OpInsert 0 (image_prez 2 True None)]
          (new_stack []))) 1 = Some 1
   \<and> store (fold apply_stack_op
          [OpInsert 0 (image_prez 1 True None), OpIndex 1, OpInsert 0 (image_prez 2 True None)]
          (new_stack [])) = [image_prez 2 True None, image_prez 1 True None]"
proof -
  let ?s = "fold apply_stack_op
          [OpInsert 0 (image_prez 1 True None), OpIndex 1, OpInsert 0 (image_prez 2 True None)]
          (new_stack [])"
  have st: "store ?s = [image_prez 2 True None, image_prez 1 True None]"
    by (simp add: insert_stack_def index_stack_def uuid2row_def new_stack_def py_insert_def
          py_clamp_def py_ssize_def Let_def split_def)
  have d: "distinct (map uuid (store ?s))" by (subst st) (simp add: image_prez_def)
  from uuid2row_never_stale[OF refl, of "[OpInsert 0 (image_prez 1 True None), OpIndex 1, OpInsert 0 (image_prez 2 True None)]" "[]" 1 1]
  have "fst (uuid2row ?s) 1 = Some 1 \<longleftrightarrow> 1 < length (store ?s) \<and> uuid (store ?s ! 1) = 1"
    using d by blast
  moreover have "uuid (store ?s ! 1) = 1" by (subst st) (simp add: image_prez_def)
  moreover have "length (store ?s) = 2" by (subst st) simp
  ultimately have "fst (uuid2row ?s) 1 = Some 1" by simp
  with st show ?thesis by blast
qed

text \<open>
  Claim C9 as stated fails when an identifier is stored twice: row 0 carries
  the identifier 7, but \<^verbatim>\<open>uuid2row\<close> maps 7 to row 1, the last row that carries it.
\<close>

theorem uuid2row_duplicate_counterexample:
  "uuid (store (fold apply_stack_op
            [OpInsert 0 (image_prez 7 True None), OpInsert 0 (image_prez 7 False None)]
            (new_stack [])) ! 0) = 7
   \<and> fst (uuid2row (fold apply_stack_op
            [OpInsert 0 (image_prez 7 True None), OpInsert 0 (image_prez 7 False None)]
            (new_stack []))) 7 = Some 1"
proof -
  let ?s = "fold apply_stack_op
            [OpInsert 0 (image_prez 7 True None), OpInsert 0 (image_prez 7 False None)]
            (new_stack [])"
  have s: "?s = \<lparr>store = [image_prez 7 False None, image_prez 7 True None], u2r = None\<rparr>"
    by (simp add: insert_stack_def new_stack_def py_insert_def py_clamp_def py_ssize_def)
  have "fst (uuid2row ?s) 7 = Some 1"
    by (subst s) (simp add: uuid2row_def build_u2r_def image_prez_def Let_def)
  moreover have "uuid (store ?s ! 0) = 7"
    by (subst s) (simp add: image_prez_def)
  ultimately show ?thesis by blast
qed

section \<open>Properties of the document\<close>

lemma non_none_set: "set (non_none ls) = {a. Some a \<in> set ls}"
proof (induction ls)
  case Nil
  then show ?case by simp
next
  case (Cons x xs)
  then show ?case by (cases x) auto
qed

lemma non_none_nth: "k < length ls \<Longrightarrow> ls ! k = Some a \<Longrightarrow> a \<in> set (non_none ls)"
  unfolding non_none_set using nth_mem[of k ls] by simp

lemma wf_document_init: "wf_document (document_init n)"
proof -
  have "non_none (replicate m None) = []" for m by (induction m) simp_all
  then show ?thesis by (simp add: wf_document_def document_init_def)
qed

lemma wf_current:
  assumes "wf_document d"
  shows "\<exists>a. current_layer_set d = Inr (Some a) \<and> layer_sets d ! nat (current_set_index d) = Some a
            \<and> a \<in> set (non_none (layer_sets d))"
proof -
  from assms have r: "0 \<le> current_set_index d" "current_set_index d < int (length (layer_sets d))"
    and n: "layer_sets d ! nat (current_set_index d) \<noteq> None"
    by (simp_all add: wf_document_def)
  from n obtain a where a: "layer_sets d ! nat (current_set_index d) = Some a" by blast
  have k: "nat (current_set_index d) < length (layer_sets d)" using r by simp
  have "current_layer_set d = Inr (Some a)"
    using r a by (simp add: current_layer_set_def py_index_def)
  with a non_none_nth[OF k a] show ?thesis by blast
qed

lemma insert_stack_ok: "py_ssize ib \<Longrightarrow> fst (insert_stack ib v s) = Inr ()"
  by (simp add: insert_stack_def py_insert_def Let_def)

lemma insert_loop_Some:
  assumes "py_ssize ib"
  shows "insert_loop ib p q csi ((dex, Some a) # rest) h =
     insert_loop ib p q csi rest
       (h(a := snd (insert_stack ib (if int dex = csi then p else q) (h a))))"
proof -
  obtain r L where e: "insert_stack ib (if int dex = csi then p else q) (h a) = (r, L)"
    by (cases "insert_stack ib (if int dex = csi then p else q) (h a)")
  from insert_stack_ok[OF assms, of "if int dex = csi then p else q" "h a"] e
  have "r = Inr ()" by simp
  with e show ?thesis by simp
qed

lemma insert_loop_ok: "py_ssize ib \<Longrightarrow> fst (insert_loop ib p q csi xs h) = Inr ()"
proof (induction xs arbitrary: h)
  case Nil
  then show ?case by simp
next
  case (Cons x xs)
  obtain dex slot where x: "x = (dex, slot)" by (cases x)
  show ?case
  proof (cases slot)
    case None
    with Cons x show ?thesis by simp
  next
    case (Some a)
    show ?thesis unfolding x Some insert_loop_Some[OF Cons.prems] by (rule Cons.IH[OF Cons.prems])
  qed
qed

lemma insert_loop_other:
  "a \<notin> set (non_none (map snd xs)) \<Longrightarrow> snd (insert_loop ib p q csi xs h) a = h a"
proof (induction xs arbitrary: h)
  case Nil
  then show ?case by simp
next
  case (Cons x xs)
  obtain dex slot where x: "x = (dex, slot)" by (cases x)
  show ?case
  proof (cases slot)
    case None
    with Cons x show ?thesis by simp
  next
    case (Some b)
    with Cons.prems x have ne: "a \<noteq> b" and r: "a \<notin> set (non_none (map snd xs))" by auto
    obtain res L where e: "insert_stack ib (if int dex = csi then p else q) (h b) = (res, L)"
      by (cases "insert_stack ib (if int dex = csi then p else q) (h b)")
    show ?thesis
    proof (cases res)
      case (Inl err)
      with e x Some ne show ?thesis by simp
    next
      case (Inr ok)
      have "snd (insert_loop ib p q csi xs (h(b := L))) a = (h(b := L)) a" by (rule Cons.IH[OF r])
      then have "snd (insert_loop ib p q csi xs (h(b := L))) a = h a" using ne by simp
      then show ?thesis unfolding x Some insert_loop.simps e Inr by simp
    qed
  qed
qed

lemma map_snd_enumerate: "map snd (enumerate n ls) = ls"
  by (simp add: enumerate_eq_zip)

lemma insert_loop_at:
  "py_ssize ib \<Longrightarrow> distinct (non_none ls) \<Longrightarrow> k < length ls \<Longrightarrow> ls ! k = Some a \<Longrightarrow>
   snd (insert_loop ib p q csi (enumerate n ls) h) a =
     snd (insert_stack ib (if int (n + k) = csi then p else q) (h a))"
proof (induction ls arbitrary: n k h)
  case Nil
  then show ?case by simp
next
  case (Cons x xs)
  note ok = Cons.prems(1)
  show ?case
  proof (cases k)
    case 0
    with Cons.prems have x: "x = Some a" by simp
    with Cons.prems have "a \<notin> set (non_none xs)" by simp
    then have "a \<notin> set (non_none (map snd (enumerate (Suc n) xs)))"
      by (simp add: map_snd_enumerate)
    from insert_loop_other[OF this] show ?thesis using x 0
      by (simp add: insert_loop_Some[OF ok] del: insert_loop.simps)
  next
    case (Suc k')
    with Cons.prems have k': "k' < length xs" and at: "xs ! k' = Some a" by simp_all
    have mem: "a \<in> set (non_none xs)" by (rule non_none_nth[OF k' at])
    show ?thesis
    proof (cases x)
      case None
      with Cons.prems have d: "distinct (non_none xs)" by simp
      from Cons.IH[OF ok d k' at, of "Suc n" h] None Suc show ?thesis by simp
    next
      case (Some b)
      with Cons.prems have d: "distinct (non_none xs)" and nb: "b \<notin> set (non_none xs)" by simp_all
      from nb mem have ne: "a \<noteq> b" by auto
      from Cons.IH[OF ok d k' at, of "Suc n"] Some Suc ne show ?thesis
        by (simp add: insert_loop_Some[OF ok] del: insert_loop.simps)
    qed
  qed
qed

lemma insert_loop_unallocated:
  "a \<notin> set (non_none ls) \<Longrightarrow> snd (insert_loop ib p q csi (enumerate n ls) h) a = h a"
  using insert_loop_other[of a "enumerate n ls"] by (simp add: map_snd_enumerate)

subsection \<open>Claim C2: a metadata update for an unknown identifier\<close>

text \<open>
  Claim C2 does not hold of the code. For an identifier that is not in the catalogue,
  \<^verbatim>\<open>update_dataset_info\<close> logs the warning and then raises \<^verbatim>\<open>KeyError\<close>; the document is
  unchanged but for the diagnostic.
\<close>

theorem update_dataset_info_unknown_raises:
  assumes "layer_with_uuid d (l_uuid new_info) = None"
  shows "update_dataset_info c new_info d =
           (Inl KeyError, d\<lparr>trace := trace d @ [Log WARNING]\<rparr>)"
  using assms by (simp add: update_dataset_info_def Let_def)

text \<open>An instance: a new document and an update for the layer 4.\<close>

theorem update_dataset_info_unknown_raises_witness:
  "layer_with_uuid (document_init 1) (l_uuid (example_layer 4)) = None
   \<and> update_dataset_info example_collaborators (example_layer 4) (document_init 1) =
       (Inl KeyError, (document_init 1)\<lparr>trace := trace (document_init 1) @ [Log WARNING]\<rparr>)"
proof -
  have a: "layer_with_uuid (document_init 1) (l_uuid (example_layer 4)) = None"
    by (simp add: document_init_def)
  from update_dataset_info_unknown_raises[OF a, of example_collaborators] a
  show ?thesis by blast
qed

subsection \<open>Claim C5: opening a path again\<close>

lemma open_file_success_catalogue:
  assumes "open_file c path ib d = (Inr r, d1)"
  shows "layer_with_uuid d1 (fst (import_image c path)) \<noteq> None"
proof -
  obtain u info where i: "import_image c path = (u, info)" by (cases "import_image c path")
  show ?thesis
  proof (cases "layer_with_uuid d u")
    case (Some l)
    with assms i show ?thesis by (simp add: open_file_def)
  next
    case None
    with assms i show ?thesis
      by (auto simp: open_file_def insert_layer_with_info_def Let_def
            split: sum.splits option.splits prod.splits)
  qed
qed

lemma open_file_known:
  assumes "layer_with_uuid d (fst (import_image c path)) \<noteq> None"
  shows "open_file c path ib d = (Inl TypeError, d)"
  using assms by (auto simp: open_file_def split_def)

text \<open>
  Claim C5 does not hold of the code. When the identifier that the import yields is in the
  catalogue, \<^verbatim>\<open>open_file\<close> raises \<^verbatim>\<open>TypeError\<close> and leaves the document, its trace
  included, as it was: no warning is logged. In particular a second call with the same path,
  after a first one that returned, raises.
\<close>

theorem open_file_again_raises:
  "(layer_with_uuid d (fst (import_image c path)) \<noteq> None \<longrightarrow>
      open_file c path ib d = (Inl TypeError, d))
   \<and> (open_file c path ib d = (Inr r, d1) \<longrightarrow> open_file c path ib' d1 = (Inl TypeError, d1))"
  using open_file_known open_file_success_catalogue by blast

subsection \<open>Claim C4: opening a new layer\<close>

lemma py_ssize_0: "py_ssize 0"
  by (simp add: py_ssize_def)

lemma py_insert_front: "py_insert 0 x xs = Inr (x # xs)"
  by (simp add: py_insert_def py_clamp_def py_ssize_0)

lemma insert_stack_front: "insert_stack 0 x s = (Inr (), s\<lparr>store := x # store s, u2r := None\<rparr>)"
  by (simp add: insert_stack_def py_insert_front)

lemma insert_layer_with_info_wf:
  assumes "wf_document d" and "py_ssize ib"
  shows "\<exists>a. layer_sets d ! nat (current_set_index d) = Some a
     \<and> insert_layer_with_info info cmap ib d =
        (Inr (\<lparr>uuid = l_uuid info, kind = l_kind info, visible = True, a_order = None,
                colormap = cmap, climits = l_clim info, mixing = NORMAL\<rparr>,
              None # map Some [0..<length (store (heap d a))]),
         d\<lparr>heap := snd (insert_loop ib
              \<lparr>uuid = l_uuid info, kind = l_kind info, visible = True, a_order = None,
                colormap = cmap, climits = l_clim info, mixing = NORMAL\<rparr>
              \<lparr>uuid = l_uuid info, kind = l_kind info, visible = False, a_order = None,
                colormap = cmap, climits = l_clim info, mixing = NORMAL\<rparr>
              (current_set_index d) (enumerate 0 (layer_sets d)) (heap d))\<rparr>)"
proof -
  from wf_current[OF assms(1)] obtain a where
    c: "current_layer_set d = Inr (Some a)" and a: "layer_sets d ! nat (current_set_index d) = Some a"
    by blast
  let ?p = "\<lparr>uuid = l_uuid info, kind = l_kind info, visible = True, a_order = None,
                colormap = cmap, climits = l_clim info, mixing = NORMAL\<rparr>"
  let ?q = "\<lparr>uuid = l_uuid info, kind = l_kind info, visible = False, a_order = None,
                colormap = cmap, climits = l_clim info, mixing = NORMAL\<rparr>"
  let ?L = "insert_loop ib ?p ?q (current_set_index d) (enumerate 0 (layer_sets d)) (heap d)"
  have "fst ?L = Inr ()" by (rule insert_loop_ok[OF assms(2)])
  then obtain h' where L: "?L = (Inr (), h')" by (cases ?L) simp
  have "insert_layer_with_info info cmap ib d =
        (Inr (?p, None # map Some [0..<length (store (heap d a))]), d\<lparr>heap := h'\<rparr>)"
    unfolding insert_layer_with_info_def Let_def c
    by (simp add: L del: insert_loop.simps)
  moreover have "h' = snd ?L" by (simp add: L)
  ultimately show ?thesis using a by blast
qed

lemma wf_document_catalogue:
  "wf_document (d\<lparr>layer_with_uuid := m\<rparr>) = wf_document d"
  by (simp add: wf_document_def)

lemma open_file_new_shape:
  assumes "layer_with_uuid d (fst (import_image c path)) = None"
  shows "\<exists>dataset cmap. open_file c path ib d =
     (case insert_layer_with_info dataset cmap ib
             (d\<lparr>layer_with_uuid := (layer_with_uuid d)(fst (import_image c path) \<mapsto> dataset)\<rparr>) of
        (Inl e, d2) \<Rightarrow> (Inl e, d2)
      | (Inr (presentation, reordered_indices), d2) \<Rightarrow>
          (Inr (fst (import_image c path), dataset),
           d2\<lparr>trace := trace d2 @
             [Emit (DidAddBasicLayer reordered_indices (l_uuid dataset) presentation)]\<rparr>))"
proof -
  obtain u info where i: "import_image c path = (u, info)" by (cases "import_image c path")
  have none: "layer_with_uuid d u = None" using assms i by simp
  show ?thesis
    unfolding open_file_def Let_def i prod.case fst_conv none option.case
    by (intro exI) (rule refl)
qed

text \<open>
  Claim C4. In a well-formed document, opening a path whose identifier is not in the catalogue
  returns normally; an entry \<open>p\<close> that is visible and has no animation ordinal is put in
  front of the entries of the current layer set, its invisible copy in front of the entries of
  every other layer set, the entries that were there following in their order; the slots and
  the current index stay, the catalogue gains the layer, and \<^verbatim>\<open>didAddBasicLayer\<close> is emitted.
\<close>

theorem open_file_inserts_at_front:
  assumes "wf_document d" and "layer_with_uuid d (fst (import_image c path)) = None"
  shows "\<exists>dataset p n.
      fst (open_file c path 0 d) = Inr (fst (import_image c path), dataset)
    \<and> uuid p = l_uuid dataset \<and> visible p \<and> a_order p = None
    \<and> layer_sets (snd (open_file c path 0 d)) = layer_sets d
    \<and> current_set_index (snd (open_file c path 0 d)) = current_set_index d
    \<and> layer_with_uuid (snd (open_file c path 0 d)) =
        (layer_with_uuid d)(fst (import_image c path) \<mapsto> dataset)
    \<and> (\<forall>k a. k < length (layer_sets d) \<and> layer_sets d ! k = Some a \<longrightarrow>
          store (heap (snd (open_file c path 0 d)) a) =
            (if int k = current_set_index d then p else p\<lparr>visible := False\<rparr>) # store (heap d a))
    \<and> trace (snd (open_file c path 0 d)) =
        trace d @ [Emit (DidAddBasicLayer (None # map Some [0..<n]) (l_uuid dataset) p)]"
proof -
  define u where "u = fst (import_image c path)"
  from open_file_new_shape[OF assms(2), of 0] obtain dataset cmap where
    shape: "open_file c path 0 d =
     (case insert_layer_with_info dataset cmap 0
             (d\<lparr>layer_with_uuid := (layer_with_uuid d)(u \<mapsto> dataset)\<rparr>) of
        (Inl e, d2) \<Rightarrow> (Inl e, d2)
      | (Inr (presentation, reordered_indices), d2) \<Rightarrow>
          (Inr (u, dataset),
           d2\<lparr>trace := trace d2 @
             [Emit (DidAddBasicLayer reordered_indices (l_uuid dataset) presentation)]\<rparr>))"
    unfolding u_def by blast
  define d1 where "d1 = d\<lparr>layer_with_uuid := (layer_with_uuid d)(u \<mapsto> dataset)\<rparr>"
  define p where "p = \<lparr>uuid = l_uuid dataset, kind = l_kind dataset, visible = True,
      a_order = None, colormap = cmap, climits = l_clim dataset, mixing = NORMAL\<rparr>"
  define q where "q = \<lparr>uuid = l_uuid dataset, kind = l_kind dataset, visible = False,
      a_order = None, colormap = cmap, climits = l_clim dataset, mixing = NORMAL\<rparr>"
  have wf1: "wf_document d1" unfolding d1_def wf_document_catalogue by (rule assms(1))
  from insert_layer_with_info_wf[OF wf1 py_ssize_0, of dataset cmap] obtain a where
    ins: "insert_layer_with_info dataset cmap 0 d1 =
            (Inr (p, None # map Some [0..<length (store (heap d1 a))]),
             d1\<lparr>heap := snd (insert_loop 0 p q (current_set_index d1) (enumerate 0 (layer_sets d1)) (heap d1))\<rparr>)"
    unfolding p_def q_def by blast
  define n where "n = length (store (heap d1 a))"
  define d2 where "d2 = d1\<lparr>heap := snd (insert_loop 0 p q (current_set_index d1) (enumerate 0 (layer_sets d1)) (heap d1))\<rparr>"
  have res: "open_file c path 0 d =
      (Inr (u, dataset),
       d2\<lparr>trace := trace d2 @ [Emit (DidAddBasicLayer (None # map Some [0..<n]) (l_uuid dataset) p)]\<rparr>)"
    unfolding shape d1_def[symmetric] ins n_def[symmetric] d2_def[symmetric] by simp
  have qp: "q = p\<lparr>visible := False\<rparr>" by (simp add: p_def q_def)
  have dist: "distinct (non_none (layer_sets d))" using assms(1) by (simp add: wf_document_def)
  have rows: "store (heap d2 b) = (if int k = current_set_index d then p else p\<lparr>visible := False\<rparr>) # store (heap d b)"
    if "k < length (layer_sets d) \<and> layer_sets d ! k = Some b" for k b
  proof -
    from that have k: "k < length (layer_sets d)" and at: "layer_sets d ! k = Some b" by simp_all
    have "heap d2 b = snd (insert_stack 0 (if int (0 + k) = current_set_index d then p else q) (heap d b))"
      unfolding d2_def d1_def
      using insert_loop_at[OF py_ssize_0 dist k at, of p q "current_set_index d" 0 "heap d"]
      by simp
    then show ?thesis by (simp add: insert_stack_front qp)
  qed
  have "fst (open_file c path 0 d) = Inr (fst (import_image c path), dataset)"
    by (simp add: res u_def)
  moreover have "uuid p = l_uuid dataset \<and> visible p \<and> a_order p = None" by (simp add: p_def)
  moreover have "layer_sets (snd (open_file c path 0 d)) = layer_sets d"
    by (simp add: res d2_def d1_def)
  moreover have "current_set_index (snd (open_file c path 0 d)) = current_set_index d"
    by (simp add: res d2_def d1_def)
  moreover have "layer_with_uuid (snd (open_file c path 0 d)) =
        (layer_with_uuid d)(fst (import_image c path) \<mapsto> dataset)"
    by (simp add: res d2_def d1_def u_def)
  moreover have "\<forall>k a. k < length (layer_sets d) \<and> layer_sets d ! k = Some a \<longrightarrow>
          store (heap (snd (open_file c path 0 d)) a) =
            (if int k = current_set_index d then p else p\<lparr>visible := False\<rparr>) # store (heap d a)"
    using rows by (simp add: res)
  moreover have "trace (snd (open_file c path 0 d)) =
        trace d @ [Emit (DidAddBasicLayer (None # map Some [0..<n]) (l_uuid dataset) p)]"
    by (simp add: res d2_def d1_def)
  ultimately show ?thesis by blast
qed

lemma wf_example_document: "wf_document example_document"
  by (simp add: wf_document_def example_document_def)

text \<open>An instance of the statement for claim C5: the path \<^verbatim>\<open>ab\<close> opened twice in a new document.\<close>

theorem open_file_again_raises_witness:
  "fst (open_file example_collaborators ''ab'' 0 (document_init 1)) = Inr (2, example_layer 2)
   \<and> open_file example_collaborators ''ab'' 0
        (snd (open_file example_collaborators ''ab'' 0 (document_init 1))) =
       (Inl TypeError, snd (open_file example_collaborators ''ab'' 0 (document_init 1)))"
proof -
  let ?r = "open_file example_collaborators ''ab'' 0 (document_init 1)"
  have f: "fst ?r = Inr (2, example_layer 2)"
    by (simp add: open_file_def example_collaborators_def insert_layer_with_info_def
          current_layer_set_def py_index_def document_init_def example_layer_def Let_def
          insert_stack_front)
  then have e: "?r = (Inr (2, example_layer 2), snd ?r)" by (cases ?r) simp
  from open_file_again_raises[of "document_init 1" example_collaborators "''ab''" 0
         "(2, example_layer 2)" "snd ?r" 0] e
  have "open_file example_collaborators ''ab'' 0 (snd ?r) = (Inl TypeError, snd ?r)" by blast
  with f show ?thesis by blast
qed

text \<open>
  An instance of the statement for claim C4: in the example document the new entry is visible
  in the current set, at address 1, and invisible in the other.
\<close>

theorem open_file_inserts_at_front_witness:
  "wf_document example_document
   \<and> layer_with_uuid example_document (fst (import_image example_collaborators ''ab'')) = None
   \<and> map visible (store (heap (snd (open_file example_collaborators ''ab'' 0 example_document)) 1))
       = [True, False]
   \<and> map visible (store (heap (snd (open_file example_collaborators ''ab'' 0 example_document)) 0))
       = [False, True]
   \<and> map a_order (store (heap (snd (open_file example_collaborators ''ab'' 0 example_document)) 1))
       = [None, Some 0]"
proof -
  let ?d' = "snd (open_file example_collaborators ''ab'' 0 example_document)"
  have n: "layer_with_uuid example_document (fst (import_image example_collaborators ''ab'')) = None"
    by (simp add: example_document_def example_collaborators_def)
  from open_file_inserts_at_front[OF wf_example_document n] obtain p where
    v: "visible p" and ao: "a_order p = None"
    and rows: "\<forall>k a. k < length (layer_sets example_document) \<and> layer_sets example_document ! k = Some a \<longrightarrow>
          store (heap ?d' a) =
            (if int k = current_set_index example_document then p else p\<lparr>visible := False\<rparr>)
              # store (heap example_document a)"
    by blast
  have k0: "0 < length (layer_sets example_document) \<and> layer_sets example_document ! 0 = Some 0"
    and k1: "1 < length (layer_sets example_document) \<and> layer_sets example_document ! 1 = Some 1"
    by (simp_all add: example_document_def)
  from rows k0 have "store (heap ?d' 0) =
      (if int 0 = current_set_index example_document then p else p\<lparr>visible := False\<rparr>)
        # store (heap example_document 0)" by blast
  then have s0: "store (heap ?d' 0) = p\<lparr>visible := False\<rparr> # [image_prez 5 True None]"
    by (simp add: example_document_def store_new_stack)
  from rows k1 have "store (heap ?d' 1) =
      (if int 1 = current_set_index example_document then p else p\<lparr>visible := False\<rparr>)
        # store (heap example_document 1)" by blast
  then have s1: "store (heap ?d' 1) = p # [image_prez 5 False (Some 0)]"
    by (simp add: example_document_def store_new_stack)
  have "map visible (store (heap ?d' 1)) = [True, False]"
    unfolding s1 using v by (simp add: image_prez_def)
  moreover have "map visible (store (heap ?d' 0)) = [False, True]"
    unfolding s0 by (simp add: image_prez_def)
  moreover have "map a_order (store (heap ?d' 1)) = [None, Some 0]"
    unfolding s1 using ao by (simp add: image_prez_def)
  ultimately show ?thesis using wf_example_document n by blast
qed

subsection \<open>Claim C7: selecting an empty slot\<close>



lemma toggle_rows_single:
  assumes "r < length (store L)"
  shows "toggle_rows vis [Row (int r)] L z =
     (Inr (AList.update (uuid (store L ! r))
             (case vis of None \<Rightarrow> \<not> visible (store L ! r) | Some v \<Rightarrow> v) z),
      L\<lparr>store := (store L)[r := (store L ! r)\<lparr>visible :=
             (case vis of None \<Rightarrow> \<not> visible (store L ! r) | Some v \<Rightarrow> v)\<rparr>],
        u2r := None\<rparr>)"
  using assms by (simp add: getitem_def py_index_def setitem_def Let_def)

lemma toggle_layer_visibility_single:
  assumes "current_layer_set d = Inr (Some b)" and "r < length (store (heap d b))"
  shows "toggle_layer_visibility [Row (int r)] vis d =
     (Inr (),
      d\<lparr>heap := (heap d)(b := (heap d b)\<lparr>store := (store (heap d b))[r := (store (heap d b) ! r)\<lparr>visible :=
             (case vis of None \<Rightarrow> \<not> visible (store (heap d b) ! r) | Some v \<Rightarrow> v)\<rparr>],
             u2r := None\<rparr>),
         trace := trace d @ [Emit (DidChangeLayerVisibility
            (AList.update (uuid (store (heap d b) ! r))
               (case vis of None \<Rightarrow> \<not> visible (store (heap d b) ! r) | Some v \<Rightarrow> v) []))]\<rparr>)"
  using assms by (simp add: toggle_layer_visibility_def toggle_rows_single del: toggle_rows.simps)



subsection \<open>Claim C3: removing an entry and purging\<close>

lemma py_del_slice_one:
  "r < length xs \<Longrightarrow> py_del_slice (int r) (int r + 1) xs = take r xs @ drop (Suc r) xs"
proof -
  assume r: "r < length xs"
  have n: "nat (int r + 1) = Suc r" by simp
  show ?thesis using r by (simp add: py_del_slice_def py_clamp_def Let_def n)
qed

lemma row_for_uuid_last_row:
  assumes "current_layer_set d = Inr (Some a)" and "is_last_row (store (heap d a)) u row"
  shows "row_for_uuid u d = Inr row"
proof -
  have "build_u2r (store (heap d a)) u = Some row" using assms(2) by (simp add: build_u2r_last_row)
  then show ?thesis using assms(1) by (simp add: row_for_uuid_def)
qed

lemma row_for_uuid_absent:
  assumes "current_layer_set d = Inr (Some a)" and "u \<notin> uuid ` set (store (heap d a))"
  shows "row_for_uuid u d = Inl KeyError"
proof -
  have "build_u2r (store (heap d a)) u = None" using assms(2) by (simp add: build_u2r_dom)
  then show ?thesis using assms(1) by (simp add: row_for_uuid_def)
qed

lemma used_iff:
  "list_ex (\<lambda>a. list_ex (\<lambda>p. uuid p = u) (store (h a))) as
     \<longleftrightarrow> (\<exists>b \<in> set as. u \<in> uuid ` set (store (h b)))"
  by (auto simp: list_ex_iff)

lemma purge_unused_single_used:
  assumes "\<exists>b \<in> set (non_none (layer_sets d)). u \<in> uuid ` set (store (heap d b))"
  shows "purge_unused [u] d = (Inr (), d\<lparr>trace := trace d @ [Log ERROR]\<rparr>)"
proof -
  have "list_ex (\<lambda>a. list_ex (\<lambda>p. uuid p = u) (store (heap d a))) (non_none (layer_sets d))"
    unfolding used_iff by (rule assms)
  then show ?thesis by (simp add: is_using_def Let_def)
qed

lemma purge_unused_single_unused:
  assumes "\<not> (\<exists>b \<in> set (non_none (layer_sets d)). u \<in> uuid ` set (store (heap d b)))"
    and "layer_with_uuid d u = Some l"
  shows "purge_unused [u] d =
     (Inr (), d\<lparr>layer_with_uuid := (layer_with_uuid d)(u := None),
                trace := trace d @ [Log ERROR, Log INFO, Emit (WillPurgeLayer u),
                                    CatalogueDel u, WorkspaceRemove u]\<rparr>)"
proof -
  have "\<not> list_ex (\<lambda>a. list_ex (\<lambda>p. uuid p = u) (store (heap d a))) (non_none (layer_sets d))"
    unfolding used_iff by (rule assms(1))
  then show ?thesis using assms(2) by (simp add: is_using_def Let_def)
qed

lemma purge_unused_single_unknown:
  assumes "\<not> (\<exists>b \<in> set (non_none (layer_sets d)). u \<in> uuid ` set (store (heap d b)))"
    and "layer_with_uuid d u = None"
  shows "purge_unused [u] d =
     (Inl KeyError, d\<lparr>trace := trace d @ [Log ERROR, Log INFO, Emit (WillPurgeLayer u)]\<rparr>)"
proof -
  have "\<not> list_ex (\<lambda>a. list_ex (\<lambda>p. uuid p = u) (store (heap d a))) (non_none (layer_sets d))"
    unfolding used_iff by (rule assms(1))
  then show ?thesis using assms(2) by (simp add: is_using_def Let_def)
qed

lemma remove_rows_one:
  assumes "current_layer_set d = Inr (Some a)" and "row < length (store (heap d a))"
  shows "remove_rows (int row) 1 us d =
     purge_unused us
       (d\<lparr>heap := (heap d)(a := (heap d a)\<lparr>store := take row (store (heap d a)) @ drop (Suc row) (store (heap d a)),
                                            u2r := None\<rparr>),
          trace := trace d @
            [Emit (DidChangeLayerVisibility [(uuid (store (heap d a) ! row), False)]),
             Emit (DidRemoveLayers
                     (take row [0..<length (store (heap d a))] @ drop (Suc row) [0..<length (store (heap d a))])
                     us (int row) 1)]\<rparr>)"
proof -
  have t: "toggle_layer_visibility (map Row [int row..int row + 1 - 1]) (Some False) d =
     (Inr (),
      d\<lparr>heap := (heap d)(a := (heap d a)\<lparr>store := (store (heap d a))[row := (store (heap d a) ! row)\<lparr>visible := False\<rparr>],
             u2r := None\<rparr>),
         trace := trace d @ [Emit (DidChangeLayerVisibility [(uuid (store (heap d a) ! row), False)])]\<rparr>)"
    using toggle_layer_visibility_single[OF assms, of "Some False"] by simp
  have c: "current_layer_set (d\<lparr>heap := h, trace := t\<rparr>) = Inr (Some a)" for h t
    using assms(1) by (simp add: current_layer_set_def)
  show ?thesis
    unfolding remove_rows_def t
    using assms(2)
    by (simp add: c Let_def delitem_slice_def py_del_slice_one del: purge_unused.simps)
qed

lemma remove_layer_prez_row:
  "fst (remove_layer_prez (Row row) cnt d) \<noteq> Inr () \<and> snd (remove_layer_prez (Row row) cnt d) = d"
  by (simp add: remove_layer_prez_def split: sum.splits option.splits)

lemma remove_layer_prez_uuid:
  assumes "current_layer_set d = Inr (Some a)" and "is_last_row (store (heap d a)) u row"
  shows "remove_layer_prez (Uuid u) 1 d =
     purge_unused [u]
       (d\<lparr>heap := (heap d)(a := (heap d a)\<lparr>store := take row (store (heap d a)) @ drop (Suc row) (store (heap d a)),
                                            u2r := None\<rparr>),
          trace := trace d @
            [Emit (DidChangeLayerVisibility [(u, False)]),
             Emit (DidRemoveLayers
                     (take row [0..<length (store (heap d a))] @ drop (Suc row) [0..<length (store (heap d a))])
                     [u] (int row) 1)]\<rparr>)"
proof -
  have r: "row < length (store (heap d a))" and e: "uuid (store (heap d a) ! row) = u"
    using is_last_row_uuid[OF assms(2)] by simp_all
  have "remove_layer_prez (Uuid u) 1 d = remove_rows (int row) 1 [u] d"
    by (simp add: remove_layer_prez_def row_for_uuid_last_row[OF assms])
  then show ?thesis unfolding remove_rows_one[OF assms(1) r] e .
qed

text \<open>
  Claim C3. Let the current layer set be the object \<open>a\<close>, let it hold an entry for \<open>u\<close>,
  and let \<open>u\<close> be in the catalogue. Then \<^verbatim>\<open>remove_layer_prez(u)\<close> returns normally, having
  removed the last row of the current set that carries \<open>u\<close>; afterwards \<open>u\<close> is gone from
  the catalogue exactly when no layer set of the document holds an entry for \<open>u\<close>; no other
  catalogue entry changes; and the trace grows by the visibility signal, the removal signal
  and the diagnostic of \<^verbatim>\<open>is_using\<close>, followed, exactly when \<open>u\<close> is purged, by the
  diagnostic at info level, the signal \<^verbatim>\<open>willPurgeLayer\<close>, the deletion from the catalogue
  and the release by the workspace, in this order. A call with a row instead of an identifier
  raises and leaves the document as it was, so it removes nothing.
\<close>

theorem remove_layer_prez_purges_unused:
  assumes "current_layer_set d = Inr (Some a)"
    and "u \<in> uuid ` set (store (heap d a))"
    and "layer_with_uuid d u \<noteq> None"
  shows "\<exists>row.
      is_last_row (store (heap d a)) u row
    \<and> fst (remove_layer_prez (Uuid u) 1 d) = Inr ()
    \<and> layer_sets (snd (remove_layer_prez (Uuid u) 1 d)) = layer_sets d
    \<and> heap (snd (remove_layer_prez (Uuid u) 1 d)) =
        (heap d)(a := (heap d a)\<lparr>store := take row (store (heap d a)) @ drop (Suc row) (store (heap d a)),
                                  u2r := None\<rparr>)
    \<and> (layer_with_uuid (snd (remove_layer_prez (Uuid u) 1 d)) u = None \<longleftrightarrow>
         \<not> (\<exists>b \<in> set (non_none (layer_sets (snd (remove_layer_prez (Uuid u) 1 d)))).
               u \<in> uuid ` set (store (heap (snd (remove_layer_prez (Uuid u) 1 d)) b))))
    \<and> (\<forall>v. v \<noteq> u \<longrightarrow>
          layer_with_uuid (snd (remove_layer_prez (Uuid u) 1 d)) v = layer_with_uuid d v)
    \<and> (layer_with_uuid (snd (remove_layer_prez (Uuid u) 1 d)) u \<noteq> None \<longrightarrow>
          layer_with_uuid (snd (remove_layer_prez (Uuid u) 1 d)) = layer_with_uuid d)
    \<and> trace (snd (remove_layer_prez (Uuid u) 1 d)) =
        trace d @ [Emit (DidChangeLayerVisibility [(u, False)]),
                   Emit (DidRemoveLayers
                           (take row [0..<length (store (heap d a))]
                              @ drop (Suc row) [0..<length (store (heap d a))])
                           [u] (int row) 1),
                   Log ERROR]
          @ (if layer_with_uuid (snd (remove_layer_prez (Uuid u) 1 d)) u = None
             then [Log INFO, Emit (WillPurgeLayer u), CatalogueDel u, WorkspaceRemove u]
             else [])
    \<and> (\<forall>r cnt. fst (remove_layer_prez (Row r) cnt d) \<noteq> Inr ()
          \<and> snd (remove_layer_prez (Row r) cnt d) = d)"
proof -
  from present_last_row[OF assms(2)] obtain row where l: "is_last_row (store (heap d a)) u row" ..
  from assms(3) obtain lay where c: "layer_with_uuid d u = Some lay" by blast
  define clo where "clo = take row [0..<length (store (heap d a))] @ drop (Suc row) [0..<length (store (heap d a))]"
  define h' where "h' = (heap d)(a := (heap d a)\<lparr>store := take row (store (heap d a)) @ drop (Suc row) (store (heap d a)),
                                  u2r := None\<rparr>)"
  define d3 where "d3 = d\<lparr>heap := h',
          trace := trace d @
            [Emit (DidChangeLayerVisibility [(u, False)]),
             Emit (DidRemoveLayers clo [u] (int row) 1)]\<rparr>"
  have step: "remove_layer_prez (Uuid u) 1 d = purge_unused [u] d3"
    unfolding d3_def h'_def clo_def by (rule remove_layer_prez_uuid[OF assms(1) l])
  have c3: "layer_with_uuid d3 u = Some lay" by (simp add: d3_def c)
  have ls3: "layer_sets d3 = layer_sets d" and hp3: "heap d3 = h'"
    and tr3: "trace d3 = trace d @ [Emit (DidChangeLayerVisibility [(u, False)]),
             Emit (DidRemoveLayers clo [u] (int row) 1)]"
    and cat3: "layer_with_uuid d3 = layer_with_uuid d"
    by (simp_all add: d3_def)
  let ?used = "\<exists>b \<in> set (non_none (layer_sets d3)). u \<in> uuid ` set (store (heap d3 b))"
  let ?R = "remove_layer_prez (Uuid u) 1 d"
  have main: "fst ?R = Inr ()
    \<and> layer_sets (snd ?R) = layer_sets d
    \<and> heap (snd ?R) = h'
    \<and> (layer_with_uuid (snd ?R) u = None \<longleftrightarrow>
         \<not> (\<exists>b \<in> set (non_none (layer_sets (snd ?R))). u \<in> uuid ` set (store (heap (snd ?R) b))))
    \<and> (\<forall>v. v \<noteq> u \<longrightarrow> layer_with_uuid (snd ?R) v = layer_with_uuid d v)
    \<and> (layer_with_uuid (snd ?R) u \<noteq> None \<longrightarrow> layer_with_uuid (snd ?R) = layer_with_uuid d)
    \<and> trace (snd ?R) =
        trace d @ [Emit (DidChangeLayerVisibility [(u, False)]),
                   Emit (DidRemoveLayers clo [u] (int row) 1), Log ERROR]
          @ (if layer_with_uuid (snd ?R) u = None
             then [Log INFO, Emit (WillPurgeLayer u), CatalogueDel u, WorkspaceRemove u]
             else [])
    \<and> (\<forall>r cnt. fst (remove_layer_prez (Row r) cnt d) \<noteq> Inr ()
          \<and> snd (remove_layer_prez (Row r) cnt d) = d)"
  proof (cases ?used)
    case True
    have R: "?R = (Inr (), d3\<lparr>trace := trace d3 @ [Log ERROR]\<rparr>)"
      unfolding step by (rule purge_unused_single_used[OF True])
    have u3: "\<exists>b \<in> set (non_none (layer_sets d)). u \<in> uuid ` set (store (h' b))"
      using True by (simp add: ls3 hp3)
    show ?thesis unfolding R using u3 by (simp add: ls3 hp3 tr3 cat3 c remove_layer_prez_row)
  next
    case False
    have R: "?R = (Inr (), d3\<lparr>layer_with_uuid := (layer_with_uuid d3)(u := None),
                trace := trace d3 @ [Log ERROR, Log INFO, Emit (WillPurgeLayer u),
                                    CatalogueDel u, WorkspaceRemove u]\<rparr>)"
      unfolding step by (rule purge_unused_single_unused[OF False c3])
    have u3: "\<not> (\<exists>b \<in> set (non_none (layer_sets d)). u \<in> uuid ` set (store (h' b)))"
      using False by (simp add: ls3 hp3)
    show ?thesis unfolding R using u3 by (simp add: ls3 hp3 tr3 cat3 remove_layer_prez_row)
  qed
  show ?thesis
    by (rule exI[of _ row]) (rule conjI[OF l main[unfolded h'_def clo_def]])
qed

text \<open>
  An instance: a document whose only layer set holds the only entry for the layer 5; removing
  it purges the layer, the signal coming before the deletion and the release.
\<close>

theorem remove_layer_prez_purges_unused_witness:
  "current_layer_set (example_document\<lparr>layer_sets := [None, Some 1, None]\<rparr>) = Inr (Some 1)
   \<and> 5 \<in> uuid ` set (store (heap (example_document\<lparr>layer_sets := [None, Some 1, None]\<rparr>) 1))
   \<and> layer_with_uuid (example_document\<lparr>layer_sets := [None, Some 1, None]\<rparr>) 5 \<noteq> None
   \<and> fst (remove_layer_prez (Uuid 5) 1 (example_document\<lparr>layer_sets := [None, Some 1, None]\<rparr>)) = Inr ()
   \<and> layer_with_uuid (snd (remove_layer_prez (Uuid 5) 1
          (example_document\<lparr>layer_sets := [None, Some 1, None]\<rparr>))) 5 = None
   \<and> trace (snd (remove_layer_prez (Uuid 5) 1
          (example_document\<lparr>layer_sets := [None, Some 1, None]\<rparr>))) =
       [Emit (DidChangeLayerVisibility [(5, False)]), Emit (DidRemoveLayers [] [5] 0 1), Log ERROR,
        Log INFO, Emit (WillPurgeLayer 5), CatalogueDel 5, WorkspaceRemove 5]"
proof -
  let ?d = "example_document\<lparr>layer_sets := [None, Some 1, None]\<rparr>"
  let ?d' = "snd (remove_layer_prez (Uuid 5) 1 ?d)"
  have h: "heap ?d 1 = new_stack [image_prez 5 False (Some 0)]" by (simp add: example_document_def)
  have st: "store (heap ?d 1) = [image_prez 5 False (Some 0)]" unfolding h by (rule store_new_stack)
  have a: "current_layer_set ?d = Inr (Some 1)"
    by (simp add: current_layer_set_def py_index_def example_document_def)
  have b: "5 \<in> uuid ` set (store (heap ?d 1))" unfolding st by (simp add: image_prez_def)
  have c: "layer_with_uuid ?d 5 \<noteq> None" by (simp add: example_document_def)
  have ls: "non_none (layer_sets ?d) = [1]" by simp
  have tr: "trace ?d = []" by (simp add: example_document_def)
  from remove_layer_prez_purges_unused[OF a b c] obtain row where
    l: "is_last_row (store (heap ?d 1)) 5 row"
    and f: "fst (remove_layer_prez (Uuid 5) 1 ?d) = Inr ()"
    and s: "layer_sets ?d' = layer_sets ?d"
    and hp: "heap ?d' = (heap ?d)(1 := (heap ?d 1)\<lparr>store := take row (store (heap ?d 1)) @ drop (Suc row) (store (heap ?d 1)),
                                  u2r := None\<rparr>)"
    and iff: "layer_with_uuid ?d' 5 = None \<longleftrightarrow>
         \<not> (\<exists>b \<in> set (non_none (layer_sets ?d')). 5 \<in> uuid ` set (store (heap ?d' b)))"
    and t: "trace ?d' =
        trace ?d @ [Emit (DidChangeLayerVisibility [(5, False)]),
                   Emit (DidRemoveLayers
                           (take row [0..<length (store (heap ?d 1))]
                              @ drop (Suc row) [0..<length (store (heap ?d 1))])
                           [5] (int row) 1),
                   Log ERROR]
          @ (if layer_with_uuid ?d' 5 = None
             then [Log INFO, Emit (WillPurgeLayer 5), CatalogueDel 5, WorkspaceRemove 5]
             else [])"
    by (elim exE conjE) (rule that; assumption)
  from l have "row < length (store (heap ?d 1))" by (simp add: is_last_row_def)
  then have row: "row = 0" unfolding st by simp
  have e: "store (heap ?d' 1) = []" unfolding hp row st by simp
  have p: "layer_with_uuid ?d' 5 = None" unfolding iff s ls using e by simp
  have "trace ?d' = [Emit (DidChangeLayerVisibility [(5, False)]), Emit (DidRemoveLayers [] [5] 0 1),
        Log ERROR, Log INFO, Emit (WillPurgeLayer 5), CatalogueDel 5, WorkspaceRemove 5]"
    unfolding t tr row st using p by simp
  with a b c f p show ?thesis by blast
qed

subsection \<open>Claim C10: purging ignores the channels of composites\<close>

lemma first_row_None: "first_row u ps = None \<Longrightarrow> u \<notin> uuid ` set ps"
  by (induction ps) (auto split: if_splits)

lemma first_row_Some: "first_row u ps = Some i \<Longrightarrow> i < length ps \<and> uuid (ps ! i) = u"
proof (induction ps arbitrary: i)
  case Nil
  then show ?case by simp
next
  case (Cons p ps)
  show ?case
  proof (cases "uuid p = u")
    case True
    with Cons.prems show ?thesis by simp
  next
    case False
    with Cons.prems obtain j where j: "first_row u ps = Some j" and i: "i = Suc j" by auto
    from Cons.IH[OF j] i show ?thesis by simp
  qed
qed

lemma distinct_remove_nth:
  assumes "distinct (map uuid ps)" and "i < length ps"
  shows "uuid (ps ! i) \<notin> uuid ` set (take i ps @ drop (Suc i) ps)"
proof -
  have "ps = take i ps @ ps ! i # drop (Suc i) ps" by (rule id_take_nth_drop[OF assms(2)])
  then have "distinct (map uuid (take i ps @ ps ! i # drop (Suc i) ps))" using assms(1) by simp
  then show ?thesis by auto
qed

lemma delitem_nat:
  "i < length (store s) \<Longrightarrow>
   delitem (int i) s = (Inr (), s\<lparr>store := take i (store s) @ drop (Suc i) (store s), u2r := None\<rparr>)"
  by (simp add: delitem_def py_del_def)

lemma remove_first_gone:
  assumes "distinct (map uuid (store L))"
  shows "u \<notin> uuid ` set (store (case first_row u (store L) of
                                   None \<Rightarrow> L
                                 | Some pdex \<Rightarrow> snd (delitem (int pdex) L)))"
proof (cases "first_row u (store L)")
  case None
  with first_row_None[OF None] show ?thesis by simp
next
  case (Some i)
  from first_row_Some[OF Some] have i: "i < length (store L)" and e: "uuid (store L ! i) = u"
    by simp_all
  from distinct_remove_nth[OF assms i] show ?thesis
    unfolding Some option.case delitem_nat[OF i] e by simp
qed

lemma remove_from_others_other:
  "b \<notin> set (non_none (map snd xs)) \<Longrightarrow> remove_from_others u csi xs h b = h b"
proof (induction xs arbitrary: h)
  case Nil
  then show ?case by simp
next
  case (Cons x xs)
  obtain dex slot where x: "x = (dex, slot)" by (cases x)
  show ?case
  proof (cases slot)
    case None
    with Cons x show ?thesis by simp
  next
    case (Some a)
    with Cons.prems x have ne: "b \<noteq> a" and r: "b \<notin> set (non_none (map snd xs))" by auto
    show ?thesis using Cons.IH[OF r] ne x Some by (simp split: option.splits)
  qed
qed

lemma remove_from_others_at:
  "distinct (non_none ls) \<Longrightarrow> k < length ls \<Longrightarrow> ls ! k = Some b \<Longrightarrow>
   remove_from_others u csi (enumerate n ls) h b =
     (if int (n + k) = csi then h b
      else (case first_row u (store (h b)) of
              None \<Rightarrow> h b
            | Some pdex \<Rightarrow> snd (delitem (int pdex) (h b))))"
proof (induction ls arbitrary: n k h)
  case Nil
  then show ?case by simp
next
  case (Cons x xs)
  show ?case
  proof (cases k)
    case 0
    with Cons.prems have x: "x = Some b" by simp
    with Cons.prems have "b \<notin> set (non_none xs)" by simp
    then have "b \<notin> set (non_none (map snd (enumerate (Suc n) xs)))"
      by (simp add: map_snd_enumerate)
    from remove_from_others_other[OF this] show ?thesis using x 0
      by (simp split: option.splits)
  next
    case (Suc k')
    with Cons.prems have k': "k' < length xs" and at: "xs ! k' = Some b" by simp_all
    have mem: "b \<in> set (non_none xs)" by (rule non_none_nth[OF k' at])
    show ?thesis
    proof (cases x)
      case None
      with Cons.prems have d: "distinct (non_none xs)" by simp
      from Cons.IH[OF d k' at, of "Suc n" h] None Suc show ?thesis by simp
    next
      case (Some a)
      with Cons.prems have d: "distinct (non_none xs)" and na: "a \<notin> set (non_none xs)" by simp_all
      from na mem have ne: "b \<noteq> a" by auto
      from Cons.IH[OF d k' at, of "Suc n"] Some Suc ne show ?thesis
        by (simp split: option.splits)
    qed
  qed
qed

lemma non_none_slot: "b \<in> set (non_none ls) \<Longrightarrow> \<exists>k < length ls. ls ! k = Some b"
  unfolding non_none_set by (simp add: in_set_conv_nth)

lemma distinct_non_none_slot:
  assumes "distinct (non_none ls)" "k < length ls" "j < length ls" "ls ! k = Some b" "ls ! j = Some b"
  shows "k = j"
  using assms
proof (induction ls arbitrary: k j)
  case Nil
  then show ?case by simp
next
  case (Cons x xs)
  have tl: "distinct (non_none xs)" using Cons.prems(1) by (cases x) simp_all
  have hd: "x = Some b \<Longrightarrow> b \<notin> set (non_none xs)" using Cons.prems(1) by auto
  show ?case
  proof (cases k)
    case 0
    with Cons.prems have x: "x = Some b" by simp
    show ?thesis
    proof (cases j)
      case 0
      with \<open>k = 0\<close> show ?thesis by simp
    next
      case (Suc j')
      with Cons.prems have "j' < length xs" "xs ! j' = Some b" by simp_all
      from non_none_nth[OF this] hd[OF x] show ?thesis by simp
    qed
  next
    case (Suc k')
    with Cons.prems have k': "k' < length xs" "xs ! k' = Some b" by simp_all
    show ?thesis
    proof (cases j)
      case 0
      with Cons.prems have x: "x = Some b" by simp
      from non_none_nth[OF k'] hd[OF x] show ?thesis by simp
    next
      case (Suc j')
      with Cons.prems have j': "j' < length xs" "xs ! j' = Some b" by simp_all
      from Cons.IH[OF tl k'(1) j'(1) k'(2) j'(2)] Suc \<open>k = Suc k'\<close> show ?thesis by simp
    qed
  qed
qed

lemma is_using_entries:
  "is_using u None d =
     (Inr (\<exists>b \<in> set (non_none (layer_sets d)). u \<in> uuid ` set (store (heap d b))),
      d\<lparr>trace := trace d @ [Log ERROR]\<rparr>)"
  by (simp add: is_using_def Let_def used_iff)

lemma remove_layers_from_all_sets_in_current:
  assumes "wf_document d"
    and "layer_sets d ! nat (current_set_index d) = Some a"
    and "u \<in> uuid ` set (store (heap d a))"
    and "\<forall>b \<in> set (non_none (layer_sets d)). distinct (map uuid (store (heap d b)))"
    and "layer_with_uuid d u \<noteq> None"
  shows "fst (remove_layers_from_all_sets [u] d) = Inr ()
    \<and> layer_with_uuid (snd (remove_layers_from_all_sets [u] d)) = (layer_with_uuid d)(u := None)
    \<and> layer_sets (snd (remove_layers_from_all_sets [u] d)) = layer_sets d
    \<and> (\<forall>b \<in> set (non_none (layer_sets d)).
          u \<notin> uuid ` set (store (heap (snd (remove_layers_from_all_sets [u] d)) b)))"
proof -
  let ?ls = "layer_sets d"
  let ?csi = "current_set_index d"
  from assms(1) have r: "0 \<le> ?csi" "?csi < int (length ?ls)"
    and dist: "distinct (non_none ?ls)"
    by (simp_all add: wf_document_def)
  have k0: "nat ?csi < length ?ls" using r by simp
  have amem: "a \<in> set (non_none ?ls)" by (rule non_none_nth[OF k0 assms(2)])
  define h2 where "h2 = remove_from_others u ?csi (enumerate 0 ?ls) (heap d)"
  define d2 where "d2 = d\<lparr>trace := trace d @ [Log DEBUG], heap := h2\<rparr>"
  have unfold: "remove_layers_from_all_sets [u] d =
      (case remove_layer_prez (Uuid u) 1 d2 of
         (Inl e, d3) \<Rightarrow> (Inl e, d3)
       | (Inr ok, d3) \<Rightarrow> remove_layers_from_all_sets [] d3)"
    unfolding d2_def h2_def remove_layers_from_all_sets.simps(2) Let_def by simp
  have h2a: "h2 a = heap d a"
    unfolding h2_def using remove_from_others_at[OF dist k0 assms(2), of u ?csi 0 "heap d"] r
    by simp
  have h2b: "u \<notin> uuid ` set (store (h2 b))" if b: "b \<in> set (non_none ?ls)" and ne: "b \<noteq> a" for b
  proof -
    from non_none_slot[OF b] obtain k where k: "k < length ?ls" and at: "?ls ! k = Some b" by blast
    have "k \<noteq> nat ?csi" using at assms(2) ne by auto
    then have nk: "int (0 + k) \<noteq> ?csi" using r by auto
    have db: "distinct (map uuid (store (heap d b)))" using assms(4) b by blast
    have "h2 b = (case first_row u (store (heap d b)) of
              None \<Rightarrow> heap d b
            | Some pdex \<Rightarrow> snd (delitem (int pdex) (heap d b)))"
      unfolding h2_def using remove_from_others_at[OF dist k at, of u ?csi 0 "heap d"] nk by simp
    then show ?thesis using remove_first_gone[OF db, of u] by simp
  qed
  have cur2: "current_layer_set d2 = Inr (Some a)"
    using r assms(2) by (simp add: d2_def current_layer_set_def py_index_def)
  have ls2: "layer_sets d2 = ?ls" and hp2: "heap d2 = h2" and cat2: "layer_with_uuid d2 = layer_with_uuid d"
    by (simp_all add: d2_def)
  have pres2: "u \<in> uuid ` set (store (heap d2 a))" using assms(3) by (simp add: hp2 h2a)
  from present_last_row[OF pres2] obtain row where l: "is_last_row (store (heap d2 a)) u row" ..
  have row: "row < length (store (heap d a))" and rowu: "uuid (store (heap d a) ! row) = u"
    using is_last_row_uuid[OF l] by (simp_all add: hp2 h2a)
  define h3 where "h3 = h2(a := (heap d a)\<lparr>store := take row (store (heap d a)) @ drop (Suc row) (store (heap d a)),
                                  u2r := None\<rparr>)"
  define d3 where "d3 = d2\<lparr>heap := h3,
          trace := trace d2 @
            [Emit (DidChangeLayerVisibility [(u, False)]),
             Emit (DidRemoveLayers
                     (take row [0..<length (store (heap d a))] @ drop (Suc row) [0..<length (store (heap d a))])
                     [u] (int row) 1)]\<rparr>"
  have step: "remove_layer_prez (Uuid u) 1 d2 = purge_unused [u] d3"
    using remove_layer_prez_uuid[OF cur2 l] unfolding d3_def h3_def hp2 h2a .
  have ls3: "layer_sets d3 = ?ls" and hp3: "heap d3 = h3" and cat3: "layer_with_uuid d3 = layer_with_uuid d"
    by (simp_all add: d3_def ls2 cat2)
  have da: "distinct (map uuid (store (heap d a)))" using assms(4) amem by blast
  have gone: "u \<notin> uuid ` set (store (h3 b))" if b: "b \<in> set (non_none ?ls)" for b
  proof (cases "b = a")
    case True
    from distinct_remove_nth[OF da row] show ?thesis unfolding True h3_def rowu by simp
  next
    case False
    with h2b[OF b False] show ?thesis by (simp add: h3_def)
  qed
  have unused: "\<not> (\<exists>b \<in> set (non_none (layer_sets d3)). u \<in> uuid ` set (store (heap d3 b)))"
    unfolding ls3 hp3 using gone by blast
  from assms(5) obtain lay where "layer_with_uuid d u = Some lay" by blast
  then have c3: "layer_with_uuid d3 u = Some lay" by (simp add: cat3)
  have R: "remove_layer_prez (Uuid u) 1 d2 =
     (Inr (), d3\<lparr>layer_with_uuid := (layer_with_uuid d3)(u := None),
                trace := trace d3 @ [Log ERROR, Log INFO, Emit (WillPurgeLayer u),
                                    CatalogueDel u, WorkspaceRemove u]\<rparr>)"
    unfolding step by (rule purge_unused_single_unused[OF unused c3])
  show ?thesis
    unfolding unfold R using gone by (simp add: ls3 hp3 cat3)
qed

lemma remove_layers_from_all_sets_not_in_current:
  assumes "wf_document d"
    and "layer_sets d ! nat (current_set_index d) = Some a"
    and "u \<notin> uuid ` set (store (heap d a))"
    and "\<forall>b \<in> set (non_none (layer_sets d)). distinct (map uuid (store (heap d b)))"
  shows "fst (remove_layers_from_all_sets [u] d) = Inl KeyError
    \<and> layer_with_uuid (snd (remove_layers_from_all_sets [u] d)) = layer_with_uuid d
    \<and> layer_sets (snd (remove_layers_from_all_sets [u] d)) = layer_sets d
    \<and> (\<forall>b \<in> set (non_none (layer_sets d)).
          u \<notin> uuid ` set (store (heap (snd (remove_layers_from_all_sets [u] d)) b)))"
proof -
  let ?ls = "layer_sets d"
  let ?csi = "current_set_index d"
  from assms(1) have r: "0 \<le> ?csi" "?csi < int (length ?ls)"
    and dist: "distinct (non_none ?ls)"
    by (simp_all add: wf_document_def)
  have k0: "nat ?csi < length ?ls" using r by simp
  have amem: "a \<in> set (non_none ?ls)" by (rule non_none_nth[OF k0 assms(2)])
  define h2 where "h2 = remove_from_others u ?csi (enumerate 0 ?ls) (heap d)"
  define d2 where "d2 = d\<lparr>trace := trace d @ [Log DEBUG], heap := h2\<rparr>"
  have unfold: "remove_layers_from_all_sets [u] d =
      (case remove_layer_prez (Uuid u) 1 d2 of
         (Inl e, d3) \<Rightarrow> (Inl e, d3)
       | (Inr ok, d3) \<Rightarrow> remove_layers_from_all_sets [] d3)"
    unfolding d2_def h2_def remove_layers_from_all_sets.simps(2) Let_def by simp
  have h2a: "h2 a = heap d a"
    unfolding h2_def using remove_from_others_at[OF dist k0 assms(2), of u ?csi 0 "heap d"] r
    by simp
  have h2b: "u \<notin> uuid ` set (store (h2 b))" if b: "b \<in> set (non_none ?ls)" and ne: "b \<noteq> a" for b
  proof -
    from non_none_slot[OF b] obtain k where k: "k < length ?ls" and at: "?ls ! k = Some b" by blast
    have "k \<noteq> nat ?csi" using at assms(2) ne by auto
    then have nk: "int (0 + k) \<noteq> ?csi" using r by auto
    have db: "distinct (map uuid (store (heap d b)))" using assms(4) b by blast
    have "h2 b = (case first_row u (store (heap d b)) of
              None \<Rightarrow> heap d b
            | Some pdex \<Rightarrow> snd (delitem (int pdex) (heap d b)))"
      unfolding h2_def using remove_from_others_at[OF dist k at, of u ?csi 0 "heap d"] nk by simp
    then show ?thesis using remove_first_gone[OF db, of u] by simp
  qed
  have cur2: "current_layer_set d2 = Inr (Some a)"
    using r assms(2) by (simp add: d2_def current_layer_set_def py_index_def)
  have ls2: "layer_sets d2 = ?ls" and hp2: "heap d2 = h2" and cat2: "layer_with_uuid d2 = layer_with_uuid d"
    by (simp_all add: d2_def)
  have abs2: "u \<notin> uuid ` set (store (heap d2 a))" using assms(3) by (simp add: hp2 h2a)
  have R: "remove_layer_prez (Uuid u) 1 d2 = (Inl KeyError, d2)"
    by (simp add: remove_layer_prez_def row_for_uuid_absent[OF cur2 abs2])
  have gone: "u \<notin> uuid ` set (store (h2 b))" if b: "b \<in> set (non_none ?ls)" for b
  proof (cases "b = a")
    case True
    with assms(3) h2a show ?thesis by simp
  next
    case False
    with h2b[OF b False] show ?thesis by simp
  qed
  show ?thesis
    unfolding unfold R using gone by (simp add: ls2 hp2 cat2)
qed

text \<open>
  Claim C10 does not hold of the code in every state. The reference count of the purge is
  \<^verbatim>\<open>is_using\<close>, which returns whether some layer set holds an entry for the identifier and
  reads nothing else, the catalogue and so the channels of composites included; a layer in use
  is kept. In a well-formed document in which no layer set holds two entries for one
  identifier, let \<open>u\<close> be in the catalogue and let the catalogue hold an RGB composite
  \<open>c\<close> that names \<open>u\<close> as one of its channels. If \<open>u\<close> has an entry in the current layer
  set, \<^verbatim>\<open>remove_layers_from_all_sets([u])\<close> returns normally, no layer set holds an entry for
  \<open>u\<close> afterwards, and \<open>u\<close> is purged, while the composite is still in the catalogue and
  still names \<open>u\<close>. If \<open>u\<close> has no entry in the current layer set, the same call deletes the
  entries for \<open>u\<close> from the other layer sets and then raises \<^verbatim>\<open>KeyError\<close> in
  \<^verbatim>\<open>row_for_uuid\<close>: no layer set holds an entry for \<open>u\<close> any more, and \<open>u\<close> stays in the
  catalogue, not purged.
\<close>

theorem purge_counts_entries_only:
  assumes "wf_document d"
    and "layer_sets d ! nat (current_set_index d) = Some a"
    and "\<forall>b \<in> set (non_none (layer_sets d)). distinct (map uuid (store (heap d b)))"
    and "layer_with_uuid d u = Some lay"
    and "layer_with_uuid d c = Some rgb" and "c \<noteq> u"
    and "l_kind rgb = RGB" and "l_channels rgb = (r, g, b)" and "Some u \<in> {r, g, b}"
  shows "is_using u None d =
           (Inr (\<exists>b \<in> set (non_none (layer_sets d)). u \<in> uuid ` set (store (heap d b))),
            d\<lparr>trace := trace d @ [Log ERROR]\<rparr>)
    \<and> ((\<exists>b \<in> set (non_none (layer_sets d)). u \<in> uuid ` set (store (heap d b))) \<longrightarrow>
          layer_with_uuid (snd (purge_unused [u] d)) = layer_with_uuid d)
    \<and> (u \<in> uuid ` set (store (heap d a)) \<longrightarrow>
          fst (remove_layers_from_all_sets [u] d) = Inr ()
          \<and> layer_with_uuid (snd (remove_layers_from_all_sets [u] d)) u = None
          \<and> (\<exists>x r' g' b'. layer_with_uuid (snd (remove_layers_from_all_sets [u] d)) c = Some x
                \<and> l_kind x = RGB \<and> l_channels x = (r', g', b') \<and> Some u \<in> {r', g', b'})
          \<and> (\<forall>b \<in> set (non_none (layer_sets (snd (remove_layers_from_all_sets [u] d)))).
                u \<notin> uuid ` set (store (heap (snd (remove_layers_from_all_sets [u] d)) b))))
    \<and> (u \<notin> uuid ` set (store (heap d a)) \<longrightarrow>
          fst (remove_layers_from_all_sets [u] d) = Inl KeyError
          \<and> layer_with_uuid (snd (remove_layers_from_all_sets [u] d)) u = Some lay
          \<and> (\<forall>b \<in> set (non_none (layer_sets (snd (remove_layers_from_all_sets [u] d)))).
                u \<notin> uuid ` set (store (heap (snd (remove_layers_from_all_sets [u] d)) b))))"
proof -
  have p1: "is_using u None d =
           (Inr (\<exists>b \<in> set (non_none (layer_sets d)). u \<in> uuid ` set (store (heap d b))),
            d\<lparr>trace := trace d @ [Log ERROR]\<rparr>)"
    by (rule is_using_entries)
  have p2: "layer_with_uuid (snd (purge_unused [u] d)) = layer_with_uuid d"
    if "\<exists>b \<in> set (non_none (layer_sets d)). u \<in> uuid ` set (store (heap d b))"
    unfolding purge_unused_single_used[OF that] by simp
  have nn: "layer_with_uuid d u \<noteq> None" using assms(4) by simp
  have p3: "fst (remove_layers_from_all_sets [u] d) = Inr ()
          \<and> layer_with_uuid (snd (remove_layers_from_all_sets [u] d)) u = None
          \<and> (\<exists>x r' g' b'. layer_with_uuid (snd (remove_layers_from_all_sets [u] d)) c = Some x
                \<and> l_kind x = RGB \<and> l_channels x = (r', g', b') \<and> Some u \<in> {r', g', b'})
          \<and> (\<forall>b \<in> set (non_none (layer_sets (snd (remove_layers_from_all_sets [u] d)))).
                u \<notin> uuid ` set (store (heap (snd (remove_layers_from_all_sets [u] d)) b)))"
    if "u \<in> uuid ` set (store (heap d a))"
  proof -
    note L = remove_layers_from_all_sets_in_current[OF assms(1,2) that assms(3) nn]
    from L have c: "layer_with_uuid (snd (remove_layers_from_all_sets [u] d)) c = Some rgb"
      using assms(5,6) by simp
    have "\<exists>x r' g' b'. layer_with_uuid (snd (remove_layers_from_all_sets [u] d)) c = Some x
                \<and> l_kind x = RGB \<and> l_channels x = (r', g', b') \<and> Some u \<in> {r', g', b'}"
      using c assms(7,8,9) by blast
    with L show ?thesis by simp
  qed
  have p4: "fst (remove_layers_from_all_sets [u] d) = Inl KeyError
          \<and> layer_with_uuid (snd (remove_layers_from_all_sets [u] d)) u = Some lay
          \<and> (\<forall>b \<in> set (non_none (layer_sets (snd (remove_layers_from_all_sets [u] d)))).
                u \<notin> uuid ` set (store (heap (snd (remove_layers_from_all_sets [u] d)) b)))"
    if "u \<notin> uuid ` set (store (heap d a))"
    using remove_layers_from_all_sets_not_in_current[OF assms(1,2) that assms(3)] assms(4)
    by simp
  from p1 p2 p3 p4 show ?thesis by blast
qed

text \<open>
  Two instances, with a composite 9 whose red channel is the layer 5. In the example
  document the layer 5 has an entry in both layer sets: removing it from all sets purges it
  and leaves the composite. When the current layer set is empty and only the other one holds
  the entry, the call raises \<^verbatim>\<open>KeyError\<close>, the entry is gone, and the layer 5 stays in the
  catalogue.
\<close>

theorem purge_counts_entries_only_witness:
  "wf_document (example_document\<lparr>layer_with_uuid := [5 \<mapsto> example_layer 5, 9 \<mapsto> example_rgb_layer 9 5]\<rparr>)
   \<and> layer_with_uuid (example_document\<lparr>layer_with_uuid :=
          [5 \<mapsto> example_layer 5, 9 \<mapsto> example_rgb_layer 9 5]\<rparr>) 9 = Some (example_rgb_layer 9 5)
   \<and> l_kind (example_rgb_layer 9 5) = RGB
   \<and> l_channels (example_rgb_layer 9 5) = (Some 5, None, None)
   \<and> fst (remove_layers_from_all_sets [5] (example_document\<lparr>layer_with_uuid :=
          [5 \<mapsto> example_layer 5, 9 \<mapsto> example_rgb_layer 9 5]\<rparr>)) = Inr ()
   \<and> layer_with_uuid (snd (remove_layers_from_all_sets [5] (example_document\<lparr>layer_with_uuid :=
          [5 \<mapsto> example_layer 5, 9 \<mapsto> example_rgb_layer 9 5]\<rparr>))) 5 = None
   \<and> fst (remove_layers_from_all_sets [5]
          (example_document\<lparr>heap := (heap example_document)(1 := new_stack []),
             layer_with_uuid := [5 \<mapsto> example_layer 5, 9 \<mapsto> example_rgb_layer 9 5]\<rparr>)) = Inl KeyError
   \<and> layer_with_uuid (snd (remove_layers_from_all_sets [5]
          (example_document\<lparr>heap := (heap example_document)(1 := new_stack []),
             layer_with_uuid := [5 \<mapsto> example_layer 5, 9 \<mapsto> example_rgb_layer 9 5]\<rparr>))) 5
       = Some (example_layer 5)
   \<and> 5 \<notin> uuid ` set (store (heap (snd (remove_layers_from_all_sets [5]
          (example_document\<lparr>heap := (heap example_document)(1 := new_stack []),
             layer_with_uuid := [5 \<mapsto> example_layer 5, 9 \<mapsto> example_rgb_layer 9 5]\<rparr>))) 0))"
proof -
  let ?d = "example_document\<lparr>layer_with_uuid := [5 \<mapsto> example_layer 5, 9 \<mapsto> example_rgb_layer 9 5]\<rparr>"
  let ?e = "example_document\<lparr>heap := (heap example_document)(1 := new_stack []),
             layer_with_uuid := [5 \<mapsto> example_layer 5, 9 \<mapsto> example_rgb_layer 9 5]\<rparr>"
  have w: "wf_document ?d" unfolding wf_document_catalogue by (rule wf_example_document)
  have we: "wf_document ?e" using wf_example_document by (simp add: wf_document_def)
  have s: "layer_sets ?d ! nat (current_set_index ?d) = Some 1" by (simp add: example_document_def)
  have se: "layer_sets ?e ! nat (current_set_index ?e) = Some 1" by (simp add: example_document_def)
  have h0: "heap ?d 0 = new_stack [image_prez 5 True None]"
    and h1: "heap ?d 1 = new_stack [image_prez 5 False (Some 0)]"
    and e0: "heap ?e 0 = new_stack [image_prez 5 True None]"
    and e1: "heap ?e 1 = new_stack []"
    by (simp_all add: example_document_def)
  have p: "5 \<in> uuid ` set (store (heap ?d 1))" unfolding h1 by (simp add: store_new_stack image_prez_def)
  have pe: "5 \<notin> uuid ` set (store (heap ?e 1))" unfolding e1 by (simp add: store_new_stack)
  have nn: "set (non_none (layer_sets ?d)) = {0, 1}" by (auto simp: example_document_def)
  have ne: "set (non_none (layer_sets ?e)) = {0, 1}" by (auto simp: example_document_def)
  have dd: "\<forall>b \<in> set (non_none (layer_sets ?d)). distinct (map uuid (store (heap ?d b)))"
    unfolding nn using h0 h1 by (simp add: store_new_stack)
  have de: "\<forall>b \<in> set (non_none (layer_sets ?e)). distinct (map uuid (store (heap ?e b)))"
    unfolding ne using e0 e1 by (simp add: store_new_stack)
  have c5: "layer_with_uuid ?d 5 = Some (example_layer 5)" by simp
  have c9: "layer_with_uuid ?d 9 = Some (example_rgb_layer 9 5)" by simp
  have c5e: "layer_with_uuid ?e 5 = Some (example_layer 5)" by simp
  have c9e: "layer_with_uuid ?e 9 = Some (example_rgb_layer 9 5)" by simp
  have nq: "(9 :: uuid) \<noteq> 5" by simp
  have k: "l_kind (example_rgb_layer 9 5) = RGB" by (simp add: example_rgb_layer_def)
  have ch: "l_channels (example_rgb_layer 9 5) = (Some 5, None, None)"
    by (simp add: example_rgb_layer_def)
  have m: "Some 5 \<in> {Some 5, None, None}" by simp
  from purge_counts_entries_only[OF w s dd c5 c9 nq k ch m] p
  have t1: "fst (remove_layers_from_all_sets [5] ?d) = Inr ()
    \<and> layer_with_uuid (snd (remove_layers_from_all_sets [5] ?d)) 5 = None"
    by blast
  from purge_counts_entries_only[OF we se de c5e c9e nq k ch m] pe
  have t2: "fst (remove_layers_from_all_sets [5] ?e) = Inl KeyError
    \<and> layer_with_uuid (snd (remove_layers_from_all_sets [5] ?e)) 5 = Some (example_layer 5)
    \<and> (\<forall>b \<in> set (non_none (layer_sets (snd (remove_layers_from_all_sets [5] ?e)))).
          5 \<notin> uuid ` set (store (heap (snd (remove_layers_from_all_sets [5] ?e)) b)))"
    by blast
  have "layer_sets (snd (remove_layers_from_all_sets [5] ?e)) = layer_sets ?e"
    using remove_layers_from_all_sets_not_in_current[OF we se pe de] by blast
  with t2 ne have t3: "5 \<notin> uuid ` set (store (heap (snd (remove_layers_from_all_sets [5] ?e)) 0))"
    by simp
  from w c9 k ch t1 t2 t3 show ?thesis by blast
qed

end
